theory Spec2Isabelle
  imports Complex_Main
begin

section \<open>Strings\<close>

text \<open>
  Python strings are modelled as \<open>string\<close>: ASCII text, one \<open>char\<close> per character; a
  character outside ASCII is the sequence of its UTF-8 bytes. The case conversions and the
  whitespace class below are Python's restricted to ASCII: bytes from 128 on are neither
  letters, digits nor whitespace, and are left alone by \<open>upper\<close> and \<open>lower\<close>.
\<close>

definition is_space :: "char \<Rightarrow> bool" where
  "is_space c = (let n = (of_char c :: nat) in (9 \<le> n \<and> n \<le> 13) \<or> (28 \<le> n \<and> n \<le> 32))"

definition is_digit :: "char \<Rightarrow> bool" where
  "is_digit c = (let n = (of_char c :: nat) in 48 \<le> n \<and> n \<le> 57)"

definition is_upper :: "char \<Rightarrow> bool" where
  "is_upper c = (let n = (of_char c :: nat) in 65 \<le> n \<and> n \<le> 90)"

definition is_lower :: "char \<Rightarrow> bool" where
  "is_lower c = (let n = (of_char c :: nat) in 97 \<le> n \<and> n \<le> 122)"

definition upper_char :: "char \<Rightarrow> char" where
  "upper_char c = (if is_lower c then char_of ((of_char c :: nat) - 32) else c)"

definition lower_char :: "char \<Rightarrow> char" where
  "lower_char c = (if is_upper c then char_of ((of_char c :: nat) + 32) else c)"

definition upper :: "string \<Rightarrow> string" where
  "upper s = map upper_char s"

definition lower :: "string \<Rightarrow> string" where
  "lower s = map lower_char s"

text \<open>\<open>s.strip()\<close>: leading and trailing whitespace removed.\<close>

definition strip :: "string \<Rightarrow> string" where
  "strip s = rev (dropWhile is_space (rev (dropWhile is_space s)))"

text \<open>\<open>s.startswith(t)\<close> and the substring test \<open>t in s\<close>.\<close>

fun startswith :: "string \<Rightarrow> string \<Rightarrow> bool" where
  "startswith s [] = True"
| "startswith [] (c # t) = False"
| "startswith (d # s) (c # t) = (d = c \<and> startswith s t)"

fun py_in :: "string \<Rightarrow> string \<Rightarrow> bool" where
  "py_in t [] = (t = [])"
| "py_in t (c # s) = (startswith (c # s) t \<or> py_in t s)"

text \<open>\<open>x or ""\<close> on an optional string.\<close>

definition or_empty :: "string option \<Rightarrow> string" where
  "or_empty x = (case x of None \<Rightarrow> [] | Some s \<Rightarrow> s)"

text \<open>Truthiness of an optional string: \<open>None\<close> and \<open>""\<close> are falsy.\<close>

definition truthy :: "string option \<Rightarrow> bool" where
  "truthy x = (case x of None \<Rightarrow> False | Some s \<Rightarrow> s \<noteq> [])"

text \<open>\<open>" ".join(xs)\<close>.\<close>

fun join_sp :: "string list \<Rightarrow> string" where
  "join_sp [] = []"
| "join_sp [x] = x"
| "join_sp (x # y # ys) = x @ '' '' @ join_sp (y # ys)"

text \<open>
  \<open>re.sub(r"\s+", " ", t)\<close>: every maximal run of whitespace becomes one space. The flag
  says that the character before was whitespace, so the run's space is already written.
\<close>

fun collapse_from :: "bool \<Rightarrow> string \<Rightarrow> string" where
  "collapse_from prev [] = []"
| "collapse_from prev (c # s) =
     (if is_space c then (if prev then collapse_from True s else CHR '' '' # collapse_from True s)
      else c # collapse_from False s)"

definition collapse_ws :: "string \<Rightarrow> string" where
  "collapse_ws s = collapse_from False s"

section \<open>Part-number normalisation and base tokens\<close>

text \<open>
  \<^verbatim>\<open>
  def _norm_mpn(s: Optional[str]) -> str:
      return re.sub(r"[^A-Za-z0-9]", "", (s or "").upper())
  \<close>
\<close>

definition is_alnum :: "char \<Rightarrow> bool" where
  "is_alnum c = (is_upper c \<or> is_lower c \<or> is_digit c)"

definition norm_mpn :: "string option \<Rightarrow> string" where
  "norm_mpn s = filter is_alnum (upper (or_empty s))"

text \<open>
  \<open>re.findall(r"\d{3,}", s)\<close>: the maximal digit runs of \<open>s\<close>, left to right, that have at
  least three digits. \<open>digit_runs cur s\<close> scans \<open>s\<close> with the run read so far in \<open>cur\<close>
  (reversed).
\<close>

fun digit_runs :: "string \<Rightarrow> string \<Rightarrow> string list" where
  "digit_runs cur [] = (if cur = [] then [] else [rev cur])"
| "digit_runs cur (c # s) =
     (if is_digit c then digit_runs (c # cur) s
      else (if cur = [] then [] else [rev cur]) @ digit_runs [] s)"

definition findall_d3 :: "string \<Rightarrow> string list" where
  "findall_d3 s = filter (\<lambda>r. 3 \<le> length r) (digit_runs [] s)"

text \<open>\<open>re.match(r"\d{3,}", s)\<close>: the leading digit run, when it has at least three digits.\<close>

definition match_d3 :: "string \<Rightarrow> string option" where
  "match_d3 s = (let r = takeWhile is_digit s in if 3 \<le> length r then Some r else None)"

text \<open>
  The sort key \<open>(-len(t), t)\<close>: longer tokens first, ties by code point order. The key is
  injective, so the sorted list does not depend on the iteration order of the set.
\<close>

fun str_le :: "string \<Rightarrow> string \<Rightarrow> bool" where
  "str_le [] t = True"
| "str_le (c # s) [] = False"
| "str_le (c # s) (d # t) =
     ((of_char c :: nat) < of_char d \<or> (c = d \<and> str_le s t))"

definition tok_le :: "string \<Rightarrow> string \<Rightarrow> bool" where
  "tok_le a b = (length b < length a \<or> (length a = length b \<and> str_le a b))"

fun insert_tok :: "string \<Rightarrow> string list \<Rightarrow> string list" where
  "insert_tok a [] = [a]"
| "insert_tok a (b # bs) = (if tok_le a b then a # b # bs else b # insert_tok a bs)"

definition sort_toks :: "string list \<Rightarrow> string list" where
  "sort_toks ts = foldr insert_tok ts []"

text \<open>
  \<^verbatim>\<open>
  def _base_tokens(original_mpn: str) -> List[str]:
      s = _norm_mpn(original_mpn)
      tokset = set(re.findall(r"\d{3,}", s))
      m = re.match(r"\d{3,}", s)
      if m:
          tokset.add(m.group(0))
      return sorted(tokset, key=lambda t: (-len(t), t))
  \<close>
\<close>

definition base_tokens_of :: "string \<Rightarrow> string list" where
  "base_tokens_of original_mpn =
     (let s = norm_mpn (Some original_mpn);
          found = findall_d3 s;
          tokset = (case match_d3 s of None \<Rightarrow> found | Some m \<Rightarrow> found @ [m])
      in sort_toks (remdups tokset))"

section \<open>Parameters\<close>

text \<open>
  An identifier of the catalog (a parameter id, a value id) is a JSON number or a JSON
  string; \<open>py_str\<close> is Python's \<open>str\<close> on it, \<open>truthy_id\<close> its truth value under \<open>or\<close>.
\<close>

datatype ident = IdInt int | IdStr string

fun nat_str :: "nat \<Rightarrow> string" where
  "nat_str n =
     (if n < 10 then [char_of (48 + n)] else nat_str (n div 10) @ [char_of (48 + n mod 10)])"

declare nat_str.simps [simp del]

definition int_str :: "int \<Rightarrow> string" where
  "int_str i = (if i < 0 then CHR ''-'' # nat_str (nat (- i)) else nat_str (nat i))"

fun py_str :: "ident \<Rightarrow> string" where
  "py_str (IdInt i) = int_str i"
| "py_str (IdStr s) = s"


definition truthy_id :: "ident option \<Rightarrow> bool" where
  "truthy_id x =
     (case x of None \<Rightarrow> False | Some (IdInt i) \<Rightarrow> i \<noteq> 0 | Some (IdStr s) \<Rightarrow> s \<noteq> [])"

text \<open>\<open>a or b\<close>: the first operand when it is truthy, the second otherwise.\<close>

definition py_or :: "ident option \<Rightarrow> ident option \<Rightarrow> ident option" where
  "py_or a b = (if truthy_id a then a else b)"

definition str_or :: "string option \<Rightarrow> string option \<Rightarrow> string option" where
  "str_or a b = (if truthy a then a else b)"

text \<open>
  A row of \<open>ranked_parameters\<close>, as the attribute extractor returns it: a dictionary read
  through the keys below (a missing key and a \<open>None\<close> value read the same with \<open>get\<close>).
\<close>

record ranked_row =
  rr_name :: "string option"
  rr_value :: "string option"
  rr_value_id :: "ident option"
  rr_ValueId :: "ident option"
  rr_ValueID :: "ident option"
  rr_id :: "ident option"
  rr_ParameterId :: "ident option"
  rr_Id :: "ident option"

text \<open>The searchable form of a parameter: \<open>{"name", "value", "id", "value_id"}\<close>.\<close>

record triple =
  t_name :: string
  t_value :: string
  t_id :: "string option"
  t_value_id :: "string option"

text \<open>
  \<^verbatim>\<open>
  _PLACEHOLDER = {"", "-", <em dash>, "n/a", "na", "none", "null"}

  def _is_placeholder(val: Optional[str]) -> bool:
      if val is None:
          return True
      s = str(val).strip().lower()
      return s in _PLACEHOLDER
  \<close>
  The third element is the em dash U+2014, three bytes in UTF-8.
\<close>

definition PLACEHOLDER :: "string list" where
  "PLACEHOLDER =
     [[], ''-'', [CHR 0xE2, CHR 0x80, CHR 0x94], ''n/a'', ''na'', ''none'', ''null'']"

definition is_placeholder :: "string option \<Rightarrow> bool" where
  "is_placeholder val =
     (case val of None \<Rightarrow> True | Some v \<Rightarrow> lower (strip v) \<in> set PLACEHOLDER)"

text \<open>
  \<^verbatim>\<open>
  def _values_from_ranked(ranked):
      out = []
      for p in ranked or []:
          name = str(p.get("name") or "").strip()
          val_text = str(p.get("value") or "").strip()
          if _is_placeholder(val_text):
              val_text = name
          val_id = p.get("value_id") or p.get("ValueId") or p.get("ValueID")
          pid = p.get("id") or p.get("ParameterId") or p.get("Id")
          if not name or _is_placeholder(val_text):
              continue
          out.append({"name": name, "value": val_text,
                      "id": str(pid) if pid is not None else None,
                      "value_id": str(val_id) if val_id is not None else None})
      return out
  \<close>
\<close>

definition value_of_row :: "ranked_row \<Rightarrow> triple option" where
  "value_of_row p =
     (let name = strip (or_empty (rr_name p));
          val_text0 = strip (or_empty (rr_value p));
          val_text = (if is_placeholder (Some val_text0) then name else val_text0);
          val_id = py_or (py_or (rr_value_id p) (rr_ValueId p)) (rr_ValueID p);
          pid = py_or (py_or (rr_id p) (rr_ParameterId p)) (rr_Id p)
      in if name = [] \<or> is_placeholder (Some val_text) then None
         else Some \<lparr>t_name = name, t_value = val_text,
                    t_id = map_option py_str pid, t_value_id = map_option py_str val_id\<rparr>)"

fun values_from_ranked :: "ranked_row list \<Rightarrow> triple list" where
  "values_from_ranked [] = []"
| "values_from_ranked (p # ps) =
     (case value_of_row p of
        None \<Rightarrow> values_from_ranked ps
      | Some t \<Rightarrow> t # values_from_ranked ps)"

section \<open>What the attribute extractor returns\<close>

text \<open>
  \<open>fetch_attributes_for_mpn\<close> returns a dictionary; the search reads the keys below.
  \<open>attributes\<close> is a dictionary in insertion order, its values already text.
\<close>

record fetched =
  f_ranked_parameters :: "ranked_row list"
  f_attributes :: "(string \<times> string) list"
  f_category :: "string option"
  f_family :: "string option"
  f_Category :: "string option"
  f_Family :: "string option"
  f_product_family :: "string option"
  f_description :: "string option"
  f_product_url :: "string option"
  f_dk_part :: "string option"
  f_mouser_part :: "string option"

text \<open>The empty dictionary \<open>{}\<close>.\<close>

definition empty_fetched :: fetched where
  "empty_fetched =
     \<lparr>f_ranked_parameters = [], f_attributes = [], f_category = None, f_family = None,
      f_Category = None, f_Family = None, f_product_family = None, f_description = None,
      f_product_url = None, f_dk_part = None, f_mouser_part = None\<rparr>"

text \<open>
  \<^verbatim>\<open>
  def _pick_base_keywords(base):
      cand = (base.get("category") or base.get("family") or base.get("Category")
              or base.get("Family") or base.get("product_family") or "")
      s = str(cand).strip()
      if not s:
          desc = str(base.get("description") or "").lower()
          if "fan" in desc:
              return "DC Fans" if "dc" in desc else "Fans"
          return ""
      low = s.lower()
      if "fan" in low and "dc" in low:
          return "DC Fans"
      if "fan" in low:
          return "Fans"
      return s
  \<close>
\<close>

definition pick_base_keywords :: "fetched \<Rightarrow> string" where
  "pick_base_keywords base =
     (let cand = str_or (str_or (str_or (str_or (str_or (f_category base) (f_family base))
                   (f_Category base)) (f_Family base)) (f_product_family base)) (Some []);
          s = strip (or_empty cand)
      in if s = [] then
           (let desc = lower (or_empty (f_description base))
            in if py_in ''fan'' desc then (if py_in ''dc'' desc then ''DC Fans'' else ''Fans'')
               else [])
         else
           (let low = lower s
            in if py_in ''fan'' low \<and> py_in ''dc'' low then ''DC Fans''
               else if py_in ''fan'' low then ''Fans''
               else s))"

text \<open>
  \<^verbatim>\<open>
  def _keywords_from_values(base_kw, values, max_tokens=3):
      tokens = []
      for v in values:
          t = (v.get("value") or "").strip()
          if not t:
              continue
          compact = re.sub(r"\s+", " ", t)
          tokens.append(compact)
          if len(tokens) >= max_tokens:
              break
      if base_kw:
          return " ".join([base_kw] + tokens)
      return " ".join(tokens)
  \<close>
  \<open>value_tokens\<close> is the loop, with the tokens collected so far in \<open>tokens\<close>.
\<close>

fun value_tokens :: "nat \<Rightarrow> string list \<Rightarrow> triple list \<Rightarrow> string list" where
  "value_tokens max_tokens tokens [] = tokens"
| "value_tokens max_tokens tokens (v # vs) =
     (let t = strip (t_value v)
      in if t = [] then value_tokens max_tokens tokens vs
         else (let tokens' = tokens @ [collapse_ws t]
               in if max_tokens \<le> length tokens' then tokens'
                  else value_tokens max_tokens tokens' vs))"

definition keywords_from_values :: "string \<Rightarrow> triple list \<Rightarrow> nat \<Rightarrow> string" where
  "keywords_from_values base_kw vals max_tokens =
     (let tokens = value_tokens max_tokens [] vals
      in if base_kw \<noteq> [] then join_sp ([base_kw] @ tokens) else join_sp tokens)"

section \<open>The catalog: requests, replies and the environment\<close>

text \<open>
  The four shapes of a parameter filter that \<open>_search_dk_with_filters\<close> builds:
  \<open>{"ParameterId", "ValueId"}\<close>, \<open>{"ParameterId", "ValueText"}\<close>, \<open>{"ParameterId", "Value"}\<close>
  and \<open>{"ParameterText", "ValueText"}\<close>.
\<close>

datatype param_filter =
    Id_ValueId string string
  | Id_ValueText string string
  | Id_Value string string
  | Text_ValueText string string

text \<open>
  A request body. \<open>Filters\<close> stands for \<open>{"Filters": {"ParameterFilters": ...}}\<close>; a key
  that the body does not have is \<open>None\<close>.
\<close>

record payload =
  Keywords :: string
  RecordCount :: nat
  Filters :: "param_filter list option"
  ParameterValueFilters :: "param_filter list option"

text \<open>
  A JSON value inside a raw vendor record, as far as \<open>_as_text\<close> tells values apart:
  \<open>None\<close>, a string, a dictionary (with the text \<open>str\<close> gives for it), or anything else
  (a number, a boolean, a list), given by its truth value and the text \<open>str\<close> gives for it.
\<close>

datatype jv =
    JNone
  | JStr string
  | JDict "(string \<times> jv) list" string
  | JOther bool string

fun jv_truthy :: "jv \<Rightarrow> bool" where
  "jv_truthy JNone = False"
| "jv_truthy (JStr s) = (s \<noteq> [])"
| "jv_truthy (JDict kvs txt) = (kvs \<noteq> [])"
| "jv_truthy (JOther b txt) = b"

definition jv_or :: "jv \<Rightarrow> jv \<Rightarrow> jv" where
  "jv_or a b = (if jv_truthy a then a else b)"

text \<open>
  \<^verbatim>\<open>
  def _as_text(v):
      if v is None:
          return ""
      if isinstance(v, str):
          return v
      if isinstance(v, dict):
          for k in ("Value", "value", "Text", "text", "Name", "name", "Url", "URL"):
              vv = v.get(k)
              if isinstance(vv, str) and vv.strip():
                  return vv
      return str(v)
  \<close>
\<close>

fun first_text :: "(string \<times> jv) list \<Rightarrow> string list \<Rightarrow> string option" where
  "first_text kvs [] = None"
| "first_text kvs (k # ks) =
     (case map_of kvs k of
        Some (JStr vv) \<Rightarrow> (if strip vv \<noteq> [] then Some vv else first_text kvs ks)
      | _ \<Rightarrow> first_text kvs ks)"

fun as_text :: "jv \<Rightarrow> string" where
  "as_text JNone = []"
| "as_text (JStr s) = s"
| "as_text (JDict kvs txt) =
     (case first_text kvs
             [''Value'', ''value'', ''Text'', ''text'', ''Name'', ''name'', ''Url'', ''URL''] of
        Some vv \<Rightarrow> vv
      | None \<Rightarrow> txt)"
| "as_text (JOther b txt) = txt"

text \<open>A raw vendor record, read through the keys of \<open>_brief_fallback\<close>.\<close>

record raw_product =
  r_ManufacturerPartNumber :: jv
  r_Manufacturer :: jv
  r_ProductUrl :: jv
  r_ProductDetailUrl :: jv
  r_DetailedDescription :: jv
  r_ProductDescription :: jv
  r_ShortDescription :: jv
  r_ProductStatus :: jv
  r_Availability :: jv
  r_QuantityAvailable :: jv
  r_Stock :: jv
  r_DatasheetUrl :: jv

text \<open>
  A candidate: the dictionary a normaliser returns, with the keys the enrichment may add. A
  key that is missing is \<open>None\<close>; for \<open>match_reasons\<close> that is the case \<open>setdefault\<close> fills.
\<close>

record candidate =
  c_mpn :: "string option"
  c_manufacturer :: "string option"
  c_product_url :: "string option"
  c_description :: "string option"
  c_lifecycle :: "string option"
  c_price :: "string option"
  c_availability :: "string option"
  c_datasheet_url :: "string option"
  c_image_url :: "string option"
  c_score :: "real option"
  c_match_reasons :: "string list option"
  c_attributes :: "(string \<times> string) list option"
  c_parameters :: "triple list option"
  c_dk_part :: "string option"
  c_mouser_part :: "string option"

text \<open>\<open>x or None\<close> on a string.\<close>

definition or_none :: "string \<Rightarrow> string option" where
  "or_none s = (if s = [] then None else Some s)"

text \<open>
  \<^verbatim>\<open>
  def _brief_fallback(p):
      mpn = _as_text(p.get("ManufacturerPartNumber")).strip().upper()
      manu = _as_text(p.get("Manufacturer")).strip()
      url  = _as_text(p.get("ProductUrl") or p.get("ProductDetailUrl")).strip()
      desc = _as_text(p.get("DetailedDescription") or p.get("ProductDescription")
                      or p.get("ShortDescription")).strip()
      status = _as_text(p.get("ProductStatus")).strip() or None
      return {"mpn": mpn, "manufacturer": manu, "product_url": url, "description": desc,
              "lifecycle": status, "price": None,
              "availability": _as_text(p.get("Availability") or p.get("QuantityAvailable")
                                       or p.get("Stock")).strip() or None,
              "datasheet_url": _as_text(p.get("DatasheetUrl")).strip() or "",
              "image_url": None, "score": 0.0, "match_reasons": [], "attributes": {}}
  \<close>
\<close>

definition brief_fallback :: "raw_product \<Rightarrow> candidate" where
  "brief_fallback p =
     \<lparr>c_mpn = Some (upper (strip (as_text (r_ManufacturerPartNumber p)))),
      c_manufacturer = Some (strip (as_text (r_Manufacturer p))),
      c_product_url = Some (strip (as_text (jv_or (r_ProductUrl p) (r_ProductDetailUrl p)))),
      c_description =
        Some (strip (as_text (jv_or (jv_or (r_DetailedDescription p) (r_ProductDescription p))
                                   (r_ShortDescription p)))),
      c_lifecycle = or_none (strip (as_text (r_ProductStatus p))),
      c_price = None,
      c_availability =
        or_none (strip (as_text (jv_or (jv_or (r_Availability p) (r_QuantityAvailable p))
                                      (r_Stock p)))),
      c_datasheet_url = Some (strip (as_text (r_DatasheetUrl p))),
      c_image_url = None,
      c_score = Some 0,
      c_match_reasons = Some [],
      c_attributes = Some [],
      c_parameters = None,
      c_dk_part = None,
      c_mouser_part = None\<rparr>"

text \<open>
  What a catalog request gives back. \<open>No_reply\<close> is a falsy \<open>r\<close> (no response, or a
  response with an error status); \<open>Bad_json\<close> is a response whose \<open>r.json()\<close> raises;
  otherwise the body is an object, read through \<open>Products\<close> and \<open>products\<close>. A field is
  \<open>Missing\<close> (absent, \<open>None\<close> or another falsy value that is not a list), a list of raw
  records, or a truthy value that is not a list.
\<close>

datatype jfield = Missing | Items "raw_product list" | Other_value

record dk_json =
  j_Products :: jfield
  j_products :: jfield

datatype dk_reply = No_reply | Bad_json | Json dk_json

fun jfield_truthy :: "jfield \<Rightarrow> bool" where
  "jfield_truthy Missing = False"
| "jfield_truthy (Items xs) = (xs \<noteq> [])"
| "jfield_truthy Other_value = True"

definition jfield_or :: "jfield \<Rightarrow> jfield \<Rightarrow> jfield" where
  "jfield_or a b = (if jfield_truthy a then a else b)"

text \<open>
  \<^verbatim>\<open>
  def _extract_products(j):
      prods = j.get("Products") or j.get("products") or []
      return prods if isinstance(prods, list) else []
  \<close>
\<close>

definition extract_products :: "dk_json \<Rightarrow> raw_product list" where
  "extract_products j =
     (case jfield_or (jfield_or (j_Products j) (j_products j)) (Items []) of
        Items xs \<Rightarrow> xs
      | _ \<Rightarrow> [])"

text \<open>
  The collaborators of the search are outside the repository: the attribute extractor, the
  token helper, the request helper and the vendor normaliser. They are the environment.
  Every call is recorded as an event, and what a collaborator answers may depend on all the
  events before it, so the environment is any deterministic one.
  \<^item> \<open>fetch_attributes_for_mpn\<close> returns a dictionary or a falsy value, or raises;
  \<^item> \<open>get_digikey_token\<close> returns a token or a falsy value;
  \<^item> \<open>dk_request\<close> takes the token (it makes the headers) and the body;
  \<^item> \<open>normalize_dk\<close> is \<open>None\<close> when the import of the vendor normaliser failed, and
    may raise on a record.
\<close>

datatype 'a outcome = Raises | Returns 'a

datatype event = Ev_fetch string | Ev_token | Ev_search payload

record env =
  fetch_attributes_for_mpn :: "event list \<Rightarrow> string \<Rightarrow> fetched option outcome"
  get_digikey_token :: "event list \<Rightarrow> string option"
  dk_request :: "event list \<Rightarrow> string \<Rightarrow> payload \<Rightarrow> dk_reply"
  normalize_dk :: "(raw_product \<Rightarrow> candidate outcome) option"

text \<open>
  \<^verbatim>\<open>
  def _normalize_products_dk(items):
      out = []
      for p in items or []:
          try:
              out.append(_normalize_dk(p) if _normalize_dk else _brief_fallback(p))
          except Exception:
              out.append(_brief_fallback(p))
      return out
  \<close>
\<close>

definition normalize_one :: "env \<Rightarrow> raw_product \<Rightarrow> candidate" where
  "normalize_one e p =
     (case normalize_dk e of
        None \<Rightarrow> brief_fallback p
      | Some f \<Rightarrow> (case f p of Raises \<Rightarrow> brief_fallback p | Returns c \<Rightarrow> c))"

definition normalize_products_dk :: "env \<Rightarrow> raw_product list \<Rightarrow> candidate list" where
  "normalize_products_dk e items = map (normalize_one e) items"

section \<open>The filter cascade\<close>

text \<open>
  \<^verbatim>\<open>
  p_id_valId  = [{"ParameterId": t["id"], "ValueId": t["value_id"]}
                 for t in triples if t.get("id") and t.get("value_id")]
  p_id_valTxt = [{"ParameterId": t["id"], "ValueText": t["value"]}
                 for t in triples if t.get("id") and t.get("value")]
  p_id_val    = [{"ParameterId": t["id"], "Value": t["value"]}
                 for t in triples if t.get("id") and t.get("value")]
  p_txt_val   = [{"ParameterText": t["name"], "ValueText": t["value"]}
                 for t in triples if t.get("name") and t.get("value")]
  \<close>
\<close>

definition p_id_valId :: "triple list \<Rightarrow> param_filter list" where
  "p_id_valId triples =
     map (\<lambda>t. Id_ValueId (or_empty (t_id t)) (or_empty (t_value_id t)))
         (filter (\<lambda>t. truthy (t_id t) \<and> truthy (t_value_id t)) triples)"

definition p_id_valTxt :: "triple list \<Rightarrow> param_filter list" where
  "p_id_valTxt triples =
     map (\<lambda>t. Id_ValueText (or_empty (t_id t)) (t_value t))
         (filter (\<lambda>t. truthy (t_id t) \<and> t_value t \<noteq> []) triples)"

definition p_id_val :: "triple list \<Rightarrow> param_filter list" where
  "p_id_val triples =
     map (\<lambda>t. Id_Value (or_empty (t_id t)) (t_value t))
         (filter (\<lambda>t. truthy (t_id t) \<and> t_value t \<noteq> []) triples)"

definition p_txt_val :: "triple list \<Rightarrow> param_filter list" where
  "p_txt_val triples =
     map (\<lambda>t. Text_ValueText (t_name t) (t_value t))
         (filter (\<lambda>t. t_name t \<noteq> [] \<and> t_value t \<noteq> []) triples)"

text \<open>
  \<^verbatim>\<open>
  candidates = []
  if p_id_valId:
      candidates.append({"Keywords": base_keywords, "RecordCount": record_count,
                         "Filters": {"ParameterFilters": p_id_valId}})
  if p_id_valTxt:
      candidates.append({... "Filters": {"ParameterFilters": p_id_valTxt}})
  if p_id_val:
      candidates.append({... "ParameterValueFilters": p_id_val})
  if p_txt_val:
      candidates.append({... "Filters": {"ParameterFilters": p_txt_val}})
  \<close>
\<close>

definition tier1 :: "string \<Rightarrow> nat \<Rightarrow> triple list \<Rightarrow> payload" where
  "tier1 base_keywords record_count triples =
     \<lparr>Keywords = base_keywords, RecordCount = record_count,
      Filters = Some (p_id_valId triples), ParameterValueFilters = None\<rparr>"

definition tier2 :: "string \<Rightarrow> nat \<Rightarrow> triple list \<Rightarrow> payload" where
  "tier2 base_keywords record_count triples =
     \<lparr>Keywords = base_keywords, RecordCount = record_count,
      Filters = Some (p_id_valTxt triples), ParameterValueFilters = None\<rparr>"

definition tier3 :: "string \<Rightarrow> nat \<Rightarrow> triple list \<Rightarrow> payload" where
  "tier3 base_keywords record_count triples =
     \<lparr>Keywords = base_keywords, RecordCount = record_count,
      Filters = None, ParameterValueFilters = Some (p_id_val triples)\<rparr>"

definition tier4 :: "string \<Rightarrow> nat \<Rightarrow> triple list \<Rightarrow> payload" where
  "tier4 base_keywords record_count triples =
     \<lparr>Keywords = base_keywords, RecordCount = record_count,
      Filters = Some (p_txt_val triples), ParameterValueFilters = None\<rparr>"

definition filter_candidates :: "string \<Rightarrow> nat \<Rightarrow> triple list \<Rightarrow> payload list" where
  "filter_candidates base_keywords record_count triples =
     (if p_id_valId triples \<noteq> [] then [tier1 base_keywords record_count triples] else []) @
     (if p_id_valTxt triples \<noteq> [] then [tier2 base_keywords record_count triples] else []) @
     (if p_id_val triples \<noteq> [] then [tier3 base_keywords record_count triples] else []) @
     (if p_txt_val triples \<noteq> [] then [tier4 base_keywords record_count triples] else [])"

text \<open>
  \<^verbatim>\<open>
  for idx, body in enumerate(candidates, 1):
      r = _dk_request("POST", DK_KEYWORD_URL, headers=hdrs, json_body=body)
      if not r:
          continue
      try:
          j = r.json() or {}
      except Exception:
          j = {}
      prods = _extract_products(j)
      if prods:
          return prods
  return []
  \<close>
  The loop returns the products and the events with the requests it made appended.
\<close>

definition empty_json :: dk_json where
  "empty_json = \<lparr>j_Products = Missing, j_products = Missing\<rparr>"

definition reply_products :: "dk_reply \<Rightarrow> raw_product list" where
  "reply_products r =
     (case r of
        No_reply \<Rightarrow> []
      | Bad_json \<Rightarrow> extract_products empty_json
      | Json j \<Rightarrow> extract_products j)"

fun try_payloads ::
  "env \<Rightarrow> event list \<Rightarrow> string \<Rightarrow> payload list \<Rightarrow> raw_product list \<times> event list" where
  "try_payloads e h token [] = ([], h)"
| "try_payloads e h token (body # rest) =
     (let prods = reply_products (dk_request e h token body)
      in if prods \<noteq> [] then (prods, h @ [Ev_search body])
         else try_payloads e (h @ [Ev_search body]) token rest)"

definition search_dk_with_filters ::
  "env \<Rightarrow> event list \<Rightarrow> string \<Rightarrow> string \<Rightarrow> triple list \<Rightarrow> nat
     \<Rightarrow> raw_product list \<times> event list" where
  "search_dk_with_filters e h token base_keywords triples record_count =
     try_payloads e h token (filter_candidates base_keywords record_count triples)"

section \<open>The keyword fallback\<close>

text \<open>
  \<^verbatim>\<open>
  attempts = []
  if base_keywords:
      attempts.append(base_keywords)
  attempts.append(_keywords_from_values(base_keywords, remaining, max_tokens=3))
  for v in remaining[:3]:
      attempts.append(_keywords_from_values(base_keywords, [v], max_tokens=1))
  seen = set()
  for idx, kw in enumerate(attempts, 1):
      kw = kw.strip()
      if not kw or kw.lower() in seen:
          continue
      seen.add(kw.lower())
      body = {"Keywords": kw, "RecordCount": record_count}
      r = _dk_request("POST", DK_KEYWORD_URL, headers=hdrs, json_body=body)
      ... (as in the filter cascade)
  return []
  \<close>
\<close>

definition keyword_attempts :: "string \<Rightarrow> triple list \<Rightarrow> string list" where
  "keyword_attempts base_keywords remaining =
     (if base_keywords \<noteq> [] then [base_keywords] else []) @
     [keywords_from_values base_keywords remaining 3] @
     map (\<lambda>v. keywords_from_values base_keywords [v] 1) (take 3 remaining)"

fun try_keywords ::
  "env \<Rightarrow> event list \<Rightarrow> string \<Rightarrow> nat \<Rightarrow> string list \<Rightarrow> string list
     \<Rightarrow> raw_product list \<times> event list" where
  "try_keywords e h token record_count seen [] = ([], h)"
| "try_keywords e h token record_count seen (kw0 # rest) =
     (let kw = strip kw0
      in if kw = [] \<or> lower kw \<in> set seen then try_keywords e h token record_count seen rest
         else
           (let body = \<lparr>Keywords = kw, RecordCount = record_count,
                        Filters = None, ParameterValueFilters = None\<rparr>;
                prods = reply_products (dk_request e h token body)
            in if prods \<noteq> [] then (prods, h @ [Ev_search body])
               else try_keywords e (h @ [Ev_search body]) token record_count
                      (lower kw # seen) rest))"

definition keyword_fallback ::
  "env \<Rightarrow> event list \<Rightarrow> string \<Rightarrow> string \<Rightarrow> triple list \<Rightarrow> nat
     \<Rightarrow> raw_product list \<times> event list" where
  "keyword_fallback e h token base_keywords remaining record_count =
     try_keywords e h token record_count [] (keyword_attempts base_keywords remaining)"

section \<open>The relaxation loop\<close>

text \<open>One record of the trail of attempts, and what the search returns.\<close>

record iteration =
  attempt :: nat
  used_value_count :: nat
  dropped_value_count :: nat
  results :: nat
  used_values :: "triple list"

record search_result =
  iterations :: "iteration list"
  used_parameters :: "triple list"
  dropped_parameters :: "triple list"
  products :: "candidate list"
  base :: fetched
  note_text :: "string option"
  base_mode :: "string option"
  base_tokens :: "string list"

text \<open>
  \<open>Not_ok err\<close> is \<open>{"ok": False, "error": err}\<close>; \<open>Ok r\<close> is \<open>{"ok": True, ...}\<close> with the
  keys of \<open>r\<close> (\<open>note_text\<close> is the key \<open>note\<close>, \<open>None\<close> when the dictionary has none).
\<close>

datatype reply = Not_ok string | Ok search_result

text \<open>
  \<^verbatim>\<open>
  def contains_base(subj_norm: str) -> bool:
      return any(tok and tok in subj_norm for tok in base_tokens_for_filter)
  \<close>
\<close>

definition contains_base :: "string list \<Rightarrow> string \<Rightarrow> bool" where
  "contains_base base_tokens_for_filter subj_norm =
     list_ex (\<lambda>tok. tok \<noteq> [] \<and> py_in tok subj_norm) base_tokens_for_filter"

text \<open>
  The search of one attempt: the filter cascade, then the keyword fallback when the cascade
  gave nothing.
  \<^verbatim>\<open>
  raw = _search_dk_with_filters(token, base_keywords, used, record_count=50)
  products_norm = _normalize_products_dk(raw)
  if not products_norm:
      raw_kw = _keyword_fallback(token, base_keywords, used, record_count=50)
      products_norm = _normalize_products_dk(raw_kw)
  \<close>
\<close>

definition attempt_products ::
  "env \<Rightarrow> event list \<Rightarrow> string \<Rightarrow> string \<Rightarrow> triple list \<Rightarrow> candidate list \<times> event list" where
  "attempt_products e h token base_keywords used =
     (let s = search_dk_with_filters e h token base_keywords used 50;
          products_norm = normalize_products_dk e (fst s)
      in if products_norm = [] then
           (let k = keyword_fallback e (snd s) token base_keywords used 50
            in (normalize_products_dk e (fst k), snd k))
         else (products_norm, snd s))"

text \<open>
  \<^verbatim>\<open>
  products_norm = [p for p in products_norm if _norm_mpn(p.get("mpn")) != original_mpn_norm]
  if base_mode == "exclude_base":
      products_norm = [p for p in products_norm if not contains_base(_norm_mpn(p.get("mpn")))]
  elif base_mode == "only_base":
      products_norm = [p for p in products_norm if contains_base(_norm_mpn(p.get("mpn")))]
  \<close>
\<close>

definition hard_filter :: "string \<Rightarrow> candidate list \<Rightarrow> candidate list" where
  "hard_filter original_mpn_norm ps = filter (\<lambda>p. norm_mpn (c_mpn p) \<noteq> original_mpn_norm) ps"

definition base_filter :: "string option \<Rightarrow> string list \<Rightarrow> candidate list \<Rightarrow> candidate list" where
  "base_filter mode toks ps =
     (if mode = Some ''exclude_base'' then
        filter (\<lambda>p. \<not> contains_base toks (norm_mpn (c_mpn p))) ps
      else if mode = Some ''only_base'' then
        filter (\<lambda>p. contains_base toks (norm_mpn (c_mpn p))) ps
      else ps)"

text \<open>One attempt: the search, then the two filters.\<close>

definition filtered_attempt ::
  "env \<Rightarrow> event list \<Rightarrow> string \<Rightarrow> string \<Rightarrow> string option \<Rightarrow> string \<Rightarrow> string list
     \<Rightarrow> triple list \<Rightarrow> candidate list \<times> event list" where
  "filtered_attempt e h token base_keywords mode original_mpn_norm toks used =
     (let a = attempt_products e h token base_keywords used
      in (base_filter mode toks (hard_filter original_mpn_norm (fst a)), snd a))"

text \<open>
  \<^verbatim>\<open>
  while True:
      ... (search and filters, above)
      iterations.append({"attempt": len(iterations) + 1, "used_value_count": len(used),
                         "dropped_value_count": len(dropped), "results": len(products_norm),
                         "used_values": [... for t in used]})
      if products_norm or (not require_results):
          break
      if not used:
          break
      dropped.append(used.pop())
      time.sleep(0.2)
  \<close>
  The loop returns \<open>products_norm\<close>, \<open>used\<close>, \<open>dropped\<close>, \<open>iterations\<close> and the events as they
  are when it breaks. The pacing delay has no effect on any of them.
\<close>

definition attempt_record ::
  "iteration list \<Rightarrow> triple list \<Rightarrow> triple list \<Rightarrow> candidate list \<Rightarrow> iteration" where
  "attempt_record its used dropped products_norm =
     \<lparr>attempt = length its + 1, used_value_count = length used,
      dropped_value_count = length dropped, results = length products_norm,
      used_values = used\<rparr>"

function relax ::
  "env \<Rightarrow> string \<Rightarrow> string \<Rightarrow> bool \<Rightarrow> string option \<Rightarrow> string \<Rightarrow> string list
     \<Rightarrow> event list \<Rightarrow> triple list \<Rightarrow> triple list \<Rightarrow> iteration list
     \<Rightarrow> candidate list \<times> triple list \<times> triple list \<times> iteration list \<times> event list" where
  "relax e token base_keywords require_results mode original_mpn_norm toks
         h used dropped its =
     (let a = filtered_attempt e h token base_keywords mode original_mpn_norm toks used;
          products_norm = fst a;
          its' = its @ [attempt_record its used dropped products_norm]
      in if products_norm \<noteq> [] \<or> \<not> require_results then
           (products_norm, used, dropped, its', snd a)
         else if used = [] then (products_norm, used, dropped, its', snd a)
         else relax e token base_keywords require_results mode original_mpn_norm toks
                (snd a) (butlast used) (dropped @ [last used]) its')"
  by pat_completeness auto
termination
  by (relation "measure (\<lambda>(e, token, bk, rr, mode, om, toks, h, used, dropped, its). length used)")
     auto

declare relax.simps [simp del]

section \<open>Enrichment\<close>

text \<open>
  \<^verbatim>\<open>
  def _fetch_attrs_quiet(_mpn):
      try:
          with contextlib.redirect_stdout(open(os.devnull, "w")):
              return fetch_attributes_for_mpn(_mpn) or {}
      except Exception:
          return fetch_attributes_for_mpn(_mpn) or {}
  \<close>
  A first call that raises is followed by a second one, whose exception is not caught.
\<close>

definition or_empty_dict :: "fetched option \<Rightarrow> fetched" where
  "or_empty_dict b = (case b of None \<Rightarrow> empty_fetched | Some d \<Rightarrow> d)"

definition fetch_attrs_quiet :: "env \<Rightarrow> event list \<Rightarrow> string \<Rightarrow> fetched outcome \<times> event list" where
  "fetch_attrs_quiet e h m =
     (case fetch_attributes_for_mpn e h m of
        Returns b \<Rightarrow> (Returns (or_empty_dict b), h @ [Ev_fetch m])
      | Raises \<Rightarrow>
          (case fetch_attributes_for_mpn e (h @ [Ev_fetch m]) m of
             Returns b \<Rightarrow> (Returns (or_empty_dict b), h @ [Ev_fetch m, Ev_fetch m])
           | Raises \<Rightarrow> (Raises, h @ [Ev_fetch m, Ev_fetch m])))"

text \<open>
  \<open>DASHES_RX\<close> matches runs of the ASCII hyphen and of U+2010 to U+2015 and U+2212, in
  UTF-8 the bytes \<open>E2 80 90\<close> to \<open>E2 80 95\<close> and \<open>E2 88 92\<close>. \<open>dash_len s\<close> is the number of
  bytes of the dash at the head of \<open>s\<close>, or 0. \<open>sub_dashes rep in_run skip s\<close> is
  \<open>DASHES_RX.sub(rep, s)\<close>: \<open>in_run\<close> says the run's replacement is already written, \<open>skip\<close>
  counts the remaining bytes of the dash being read.
\<close>

fun dash_len :: "string \<Rightarrow> nat" where
  "dash_len [] = 0"
| "dash_len (c # s) =
     (if c = CHR ''-'' then 1
      else if c = CHR 0xE2 then
        (case s of
           d # x # _ \<Rightarrow>
             (if (d = CHR 0x80 \<and> 0x90 \<le> (of_char x :: nat) \<and> (of_char x :: nat) \<le> 0x95)
                 \<or> (d = CHR 0x88 \<and> x = CHR 0x92)
              then 3 else 0)
         | _ \<Rightarrow> 0)
      else 0)"

fun sub_dashes :: "string \<Rightarrow> bool \<Rightarrow> nat \<Rightarrow> string \<Rightarrow> string" where
  "sub_dashes rep in_run skip [] = []"
| "sub_dashes rep in_run (Suc k) (c # s) = sub_dashes rep in_run k s"
| "sub_dashes rep in_run 0 (c # s) =
     (let n = dash_len (c # s)
      in if n = 0 then c # sub_dashes rep False 0 s
         else (if in_run then [] else rep) @ sub_dashes rep True (n - 1) s)"

text \<open>\<open>re.sub(r"\s{2,}", " ", t)\<close>: a run of two or more whitespace characters becomes one space.\<close>

fun collapse_ws2 :: "bool \<Rightarrow> string \<Rightarrow> string" where
  "collapse_ws2 in_run [] = []"
| "collapse_ws2 in_run (c # s) =
     (if is_space c then
        (if in_run then collapse_ws2 True s
         else (case s of
                 [] \<Rightarrow> [c]
               | d # _ \<Rightarrow> (if is_space d then CHR '' '' # collapse_ws2 True s
                            else c # collapse_ws2 False s)))
      else c # collapse_ws2 False s)"

text \<open>
  \<^verbatim>\<open>
  def _mpn_variants(mpn_raw):
      s = (mpn_raw or "").strip()
      if not s:
          return []
      s = unicodedata.normalize("NFC", s)
      variants = [s]
      no_dash = DASHES_RX.sub("", s)
      if no_dash and no_dash not in variants:
          variants.append(no_dash)
      spaced = DASHES_RX.sub(" ", s)
      spaced = re.sub(r"\s{2,}", " ", spaced).strip()
      if spaced and spaced not in variants:
          variants.append(spaced)
      first_tok = s.split()[0]
      if first_tok and first_tok not in variants:
          variants.append(first_tok)
      return variants
  \<close>
  NFC normalisation leaves ASCII text as it is.
\<close>

definition add_variant :: "string \<Rightarrow> string list \<Rightarrow> string list" where
  "add_variant v variants = (if v \<noteq> [] \<and> v \<notin> set variants then variants @ [v] else variants)"

definition mpn_variants :: "string \<Rightarrow> string list" where
  "mpn_variants mpn_raw =
     (let s = strip mpn_raw
      in if s = [] then []
         else
           (let variants = [s];
                variants = add_variant (sub_dashes [] False 0 s) variants;
                variants = add_variant (strip (collapse_ws2 False (sub_dashes '' '' False 0 s)))
                             variants;
                variants = add_variant (takeWhile (\<lambda>c. \<not> is_space c) s) variants
            in variants))"

text \<open>
  \<^verbatim>\<open>
  add = {}
  for mv in _mpn_variants(alt_mpn_raw):
      add = _fetch_attrs_quiet(mv)
      if isinstance(add, dict) and (add.get("attributes") or add.get("ranked_parameters")):
          break
  \<close>
\<close>

fun fetch_variants ::
  "env \<Rightarrow> event list \<Rightarrow> fetched \<Rightarrow> string list \<Rightarrow> fetched outcome \<times> event list" where
  "fetch_variants e h add [] = (Returns add, h)"
| "fetch_variants e h add (mv # mvs) =
     (case fetch_attrs_quiet e h mv of
        (Raises, h') \<Rightarrow> (Raises, h')
      | (Returns a, h') \<Rightarrow>
          (if f_attributes a \<noteq> [] \<or> f_ranked_parameters a \<noteq> [] then (Returns a, h')
           else fetch_variants e h' a mvs))"

text \<open>
  \<^verbatim>\<open>
  if isinstance(add.get("attributes"), dict) and add["attributes"]:
      p["attributes"] = dict(add["attributes"])
  ranked = add.get("ranked_parameters") or []
  if ranked:
      p["parameters"] = _values_from_ranked(ranked)
  if add.get("product_url") and not p.get("product_url"):
      p["product_url"] = add["product_url"]
  if add.get("dk_part") and not p.get("dk_part"):
      p["dk_part"] = add["dk_part"]
  if add.get("mouser_part") and not p.get("mouser_part"):
      p["mouser_part"] = add["mouser_part"]
  \<close>
\<close>

definition attach :: "fetched \<Rightarrow> candidate \<Rightarrow> candidate" where
  "attach add p =
     (let p = (if f_attributes add \<noteq> [] then p\<lparr>c_attributes := Some (f_attributes add)\<rparr>
               else p);
          p = (if f_ranked_parameters add \<noteq> []
               then p\<lparr>c_parameters := Some (values_from_ranked (f_ranked_parameters add))\<rparr>
               else p);
          p = (if truthy (f_product_url add) \<and> \<not> truthy (c_product_url p)
               then p\<lparr>c_product_url := f_product_url add\<rparr> else p);
          p = (if truthy (f_dk_part add) \<and> \<not> truthy (c_dk_part p)
               then p\<lparr>c_dk_part := f_dk_part add\<rparr> else p);
          p = (if truthy (f_mouser_part add) \<and> \<not> truthy (c_mouser_part p)
               then p\<lparr>c_mouser_part := f_mouser_part add\<rparr> else p)
      in p)"

text \<open>
  \<open>_enrich\<close>: an exception of the lookups is caught, and the candidate is then left as it
  was (nothing is written before the lookups are over).
\<close>

definition enrich :: "env \<Rightarrow> event list \<Rightarrow> candidate \<Rightarrow> candidate \<times> event list" where
  "enrich e h p =
     (let alt_mpn_raw = strip (or_empty (c_mpn p))
      in if alt_mpn_raw = [] then (p, h)
         else
           (case fetch_variants e h empty_fetched (mpn_variants alt_mpn_raw) of
              (Raises, h') \<Rightarrow> (p, h')
            | (Returns add, h') \<Rightarrow> (attach add p, h')))"

text \<open>
  The pool runs one \<open>_enrich\<close> per candidate and is joined before the search returns. Each
  worker writes to its own candidate only. The model runs the workers one after the other
  in list order, which is one of the schedules of the pool.
\<close>

fun enrich_all :: "env \<Rightarrow> event list \<Rightarrow> candidate list \<Rightarrow> candidate list \<times> event list" where
  "enrich_all e h [] = ([], h)"
| "enrich_all e h (p # ps) =
     (let r = enrich e h p; rs = enrich_all e (snd r) ps
      in (fst r # fst rs, snd rs))"

section \<open>The search\<close>

text \<open>
  \<^verbatim>\<open>
  match_reasons = [f"{t['name']} = {t['value']}" for t in used[:6]]
  for p in products_norm[:10]:
      p.setdefault("match_reasons", match_reasons)
  \<close>
\<close>

definition match_reasons_of :: "triple list \<Rightarrow> string list" where
  "match_reasons_of used = map (\<lambda>t. t_name t @ '' = '' @ t_value t) (take 6 used)"

definition setdefault_match_reasons :: "string list \<Rightarrow> candidate \<Rightarrow> candidate" where
  "setdefault_match_reasons rs p =
     (case c_match_reasons p of None \<Rightarrow> p\<lparr>c_match_reasons := Some rs\<rparr> | Some _ \<Rightarrow> p)"

definition attach_reasons :: "string list \<Rightarrow> candidate list \<Rightarrow> candidate list" where
  "attach_reasons rs ps = map (setdefault_match_reasons rs) (take 10 ps) @ drop 10 ps"

text \<open>
  The ranked rows synthesised from the attributes when the extractor gave no ranks:
  \<open>{"id": f"attr:{k}", "name": k, "value": str(v)}\<close>.
\<close>

definition synth_row :: "string \<times> string \<Rightarrow> ranked_row" where
  "synth_row kv =
     \<lparr>rr_name = Some (fst kv), rr_value = Some (snd kv), rr_value_id = None, rr_ValueId = None,
      rr_ValueID = None, rr_id = Some (IdStr (''attr:'' @ fst kv)), rr_ParameterId = None,
      rr_Id = None\<rparr>"

definition ranked_of :: "fetched \<Rightarrow> ranked_row list" where
  "ranked_of b =
     (if f_ranked_parameters b = [] then map synth_row (f_attributes b)
      else f_ranked_parameters b)"

text \<open>
  \<open>find_replacements_for_mpn(mpn, require_results, base_mode)\<close>, run from the events \<open>h\<close>. It
  returns a reply or raises (when the first attribute lookup raises twice), and the events
  with its own calls appended.
\<close>

definition find_replacements_for_mpn ::
  "env \<Rightarrow> event list \<Rightarrow> string option \<Rightarrow> bool \<Rightarrow> string option \<Rightarrow> reply outcome \<times> event list" where
  "find_replacements_for_mpn e h mpn0 require_results mode =
     (let mpn = strip (or_empty mpn0)
      in if mpn = [] then (Returns (Not_ok ''missing mpn''), h)
         else
           (case fetch_attrs_quiet e h mpn of
              (Raises, h1) \<Rightarrow> (Raises, h1)
            | (Returns b, h1) \<Rightarrow>
                (let triples = values_from_ranked (ranked_of b);
                     base_keywords = pick_base_keywords b
                 in if triples = [] then
                      (Returns (Ok \<lparr>iterations = [], used_parameters = [],
                                    dropped_parameters = [], products = [], base = b,
                                    note_text = Some ''No usable parameter values available for filtering.'',
                                    base_mode = mode, base_tokens = base_tokens_of mpn\<rparr>), h1)
                    else
                      (let token = get_digikey_token e h1; h2 = h1 @ [Ev_token]
                       in if \<not> truthy token then
                            (Returns (Not_ok ''Digi-Key token not available; check DIGIKEY_* envs.''), h2)
                          else
                            (case relax e (or_empty token) base_keywords require_results mode
                                    (norm_mpn (Some mpn)) (base_tokens_of mpn) h2 triples [] [] of
                               (products_norm, used, dropped, its, h3) \<Rightarrow>
                                 (let en = enrich_all e h3
                                             (attach_reasons (match_reasons_of used) products_norm)
                                  in (Returns (Ok \<lparr>iterations = its, used_parameters = used,
                                                   dropped_parameters = dropped,
                                                   products = fst en, base = b, note_text = None,
                                                   base_mode = mode,
                                                   base_tokens = base_tokens_of mpn\<rparr>),
                                      snd en)))))))"

section \<open>Ranking the parameters\<close>




















text \<open>
  The result dictionary of a run that returned \<open>ok: True\<close>; \<open>None\<close> for an error reply or
  an exception.
\<close>

definition returned :: "reply outcome \<times> event list \<Rightarrow> search_result option" where
  "returned x = (case fst x of Returns (Ok r) \<Rightarrow> Some r | _ \<Rightarrow> None)"

section \<open>Example environments\<close>

text \<open>
  The scenario of the specification: part \<open>4414F\<close> with the parameters
  \<open>Voltage - Rated = 24VDC\<close> (id 1) and \<open>Air Flow = 100 CFM\<close> (id 2), in that rank order. The
  catalog answers only the query that filters on the voltage alone, with three records:
  the part itself (written differently), a part of the same family and another part.
\<close>

definition fan_rows :: "ranked_row list" where
  "fan_rows =
     [\<lparr>rr_name = Some ''Voltage - Rated'', rr_value = Some ''24VDC'', rr_value_id = None,
       rr_ValueId = None, rr_ValueID = None, rr_id = Some (IdInt 1), rr_ParameterId = None,
       rr_Id = None\<rparr>,
      \<lparr>rr_name = Some ''Air Flow'', rr_value = Some ''100 CFM'', rr_value_id = None,
       rr_ValueId = None, rr_ValueID = None, rr_id = Some (IdInt 2), rr_ParameterId = None,
       rr_Id = None\<rparr>]"

definition fan_base :: fetched where
  "fan_base = empty_fetched\<lparr>f_ranked_parameters := fan_rows, f_category := Some ''DC Fans''\<rparr>"

definition fan_raw :: "string \<Rightarrow> raw_product" where
  "fan_raw m =
     \<lparr>r_ManufacturerPartNumber = JStr m, r_Manufacturer = JStr ''ebm-papst'',
      r_ProductUrl = JNone, r_ProductDetailUrl = JNone, r_DetailedDescription = JNone,
      r_ProductDescription = JNone, r_ShortDescription = JNone,
      r_ProductStatus = JStr ''Active'', r_Availability = JNone,
      r_QuantityAvailable = JOther True ''12'', r_Stock = JNone, r_DatasheetUrl = JNone\<rparr>"

definition fan_catalog :: "event list \<Rightarrow> string \<Rightarrow> payload \<Rightarrow> dk_reply" where
  "fan_catalog h token body =
     (if Filters body = Some [Id_ValueText ''1'' ''24VDC'']
      then Json \<lparr>j_Products = Items [fan_raw ''4414 f'', fan_raw ''4414FH'', fan_raw ''AFB-1224''],
                 j_products = Missing\<rparr>
      else No_reply)"

definition fan_env :: env where
  "fan_env =
     \<lparr>fetch_attributes_for_mpn =
        (\<lambda>h m. if m = ''4414F'' then Returns (Some fan_base) else Returns None),
      get_digikey_token = (\<lambda>h. Some ''token''),
      dk_request = fan_catalog,
      normalize_dk = None\<rparr>"

text \<open>One ranked value that has a value identifier too, so that all four tiers are built.\<close>

definition volt_triples :: "triple list" where
  "volt_triples =
     [\<lparr>t_name = ''Voltage - Rated'', t_value = ''24VDC'', t_id = Some ''1'',
       t_value_id = Some ''77''\<rparr>]"

text \<open>
  An environment with a vendor normaliser that returns only the part number, and a catalog
  that answers every query with eleven records.
\<close>

definition plain_normalizer :: "raw_product \<Rightarrow> candidate outcome" where
  "plain_normalizer p =
     Returns \<lparr>c_mpn = Some (as_text (r_ManufacturerPartNumber p)), c_manufacturer = None,
              c_product_url = None, c_description = None, c_lifecycle = None, c_price = None,
              c_availability = None, c_datasheet_url = None, c_image_url = None,
              c_score = None, c_match_reasons = None, c_attributes = None,
              c_parameters = None, c_dk_part = None, c_mouser_part = None\<rparr>"

definition eleven_raw :: "raw_product list" where
  "eleven_raw =
     map fan_raw [''A1'', ''A2'', ''A3'', ''A4'', ''A5'', ''A6'', ''A7'', ''A8'', ''A9'',
                  ''A10'', ''A11'']"

definition eleven_env :: env where
  "eleven_env =
     \<lparr>fetch_attributes_for_mpn =
        (\<lambda>h m. if m = ''4414F'' then Returns (Some fan_base) else Returns None),
      get_digikey_token = (\<lambda>h. Some ''token''),
      dk_request = (\<lambda>h token body. Json \<lparr>j_Products = Items eleven_raw, j_products = Missing\<rparr>),
      normalize_dk = Some plain_normalizer\<rparr>"







section \<open>Properties\<close>

subsection \<open>Normalisation, and the fields that later steps leave alone\<close>






lemma c_mpn_attach: "c_mpn (attach add p) = c_mpn p"
  by (simp add: attach_def Let_def)

lemma c_match_reasons_attach: "c_match_reasons (attach add p) = c_match_reasons p"
  by (simp add: attach_def Let_def)

lemma c_mpn_enrich: "c_mpn (fst (enrich e h p)) = c_mpn p"
  by (simp add: enrich_def Let_def c_mpn_attach split: prod.splits outcome.splits)

lemma c_match_reasons_enrich: "c_match_reasons (fst (enrich e h p)) = c_match_reasons p"
  by (simp add: enrich_def Let_def c_match_reasons_attach split: prod.splits outcome.splits)

lemma map_c_mpn_enrich_all: "map c_mpn (fst (enrich_all e h ps)) = map c_mpn ps"
  by (induction ps arbitrary: h) (simp_all add: Let_def c_mpn_enrich)

lemma map_c_match_reasons_enrich_all:
  "map c_match_reasons (fst (enrich_all e h ps)) = map c_match_reasons ps"
  by (induction ps arbitrary: h) (simp_all add: Let_def c_match_reasons_enrich)

lemma c_mpn_setdefault: "c_mpn (setdefault_match_reasons rs p) = c_mpn p"
  by (simp add: setdefault_match_reasons_def split: option.splits)

lemma map_c_mpn_attach_reasons: "map c_mpn (attach_reasons rs ps) = map c_mpn ps"
proof -
  have "map c_mpn (attach_reasons rs ps) = map c_mpn (take 10 ps) @ map c_mpn (drop 10 ps)"
    by (simp add: attach_reasons_def c_mpn_setdefault comp_def)
  also have "\<dots> = map c_mpn ps"
    by (simp flip: map_append)
  finally show ?thesis .
qed

subsection \<open>The relaxation loop\<close>

lemma relax_rule:
  assumes stop: "\<And>h used dropped its a.
      a = filtered_attempt e h tk kw mode om toks used \<Longrightarrow>
      fst a \<noteq> [] \<or> \<not> rr \<or> used = [] \<Longrightarrow>
      P h used dropped its
        (fst a, used, dropped, its @ [attempt_record its used dropped (fst a)], snd a)"
    and step: "\<And>h used dropped its a res.
      a = filtered_attempt e h tk kw mode om toks used \<Longrightarrow>
      fst a = [] \<Longrightarrow> rr \<Longrightarrow> used \<noteq> [] \<Longrightarrow>
      P (snd a) (butlast used) (dropped @ [last used])
        (its @ [attempt_record its used dropped (fst a)]) res \<Longrightarrow>
      P h used dropped its res"
  shows "P h used dropped its (relax e tk kw rr mode om toks h used dropped its)"
proof (induction "length used" arbitrary: h used dropped its rule: less_induct)
  case less
  define a where "a = filtered_attempt e h tk kw mode om toks used"
  show ?case
  proof (cases "fst a \<noteq> [] \<or> \<not> rr \<or> used = []")
    case True
    then have "relax e tk kw rr mode om toks h used dropped its =
        (fst a, used, dropped, its @ [attempt_record its used dropped (fst a)], snd a)"
      by (subst relax.simps) (auto simp: Let_def a_def)
    with stop [OF a_def True] show ?thesis by simp
  next
    case False
    then have eq: "relax e tk kw rr mode om toks h used dropped its =
        relax e tk kw rr mode om toks (snd a) (butlast used) (dropped @ [last used])
          (its @ [attempt_record its used dropped (fst a)])"
      by (subst relax.simps) (auto simp: Let_def a_def)
    have "length (butlast used) < length used"
      using False by simp
    then have "P (snd a) (butlast used) (dropped @ [last used])
            (its @ [attempt_record its used dropped (fst a)])
            (relax e tk kw rr mode om toks (snd a) (butlast used) (dropped @ [last used])
               (its @ [attempt_record its used dropped (fst a)]))"
      by (rule less)
    with False show ?thesis
      unfolding eq by (intro step [OF a_def]) auto
  qed
qed


lemma relax_terminal:
  "relax e tk kw rr mode om toks h used dropped its = (ps, u', d', its', h') \<Longrightarrow>
   ps \<noteq> [] \<or> \<not> rr \<or> u' = []"
proof -
  have "case relax e tk kw rr mode om toks h used dropped its of
          (ps, u', d', its', h') \<Rightarrow> ps \<noteq> [] \<or> \<not> rr \<or> u' = []"
    by (rule relax_rule) auto
  then show "relax e tk kw rr mode om toks h used dropped its = (ps, u', d', its', h') \<Longrightarrow>
    ps \<noteq> [] \<or> \<not> rr \<or> u' = []"
    by simp
qed

lemma relax_partition:
  "relax e tk kw rr mode om toks h used dropped its = (ps, u', d', its', h') \<Longrightarrow>
   u' @ rev d' = used @ rev dropped"
proof -
  have "case relax e tk kw rr mode om toks h used dropped its of
          (ps, u', d', its', h') \<Rightarrow> u' @ rev d' = used @ rev dropped"
  proof (rule relax_rule)
    fix h used dropped its a and res :: "candidate list \<times> triple list \<times> triple list \<times> iteration list \<times> event list"
    assume "used \<noteq> []"
      and "case res of (ps, u', d', its', h') \<Rightarrow>
             u' @ rev d' = butlast used @ rev (dropped @ [last used])"
    then show "case res of (ps, u', d', its', h') \<Rightarrow> u' @ rev d' = used @ rev dropped"
      by (auto split: prod.splits)
  qed auto
  then show "relax e tk kw rr mode om toks h used dropped its = (ps, u', d', its', h') \<Longrightarrow>
    u' @ rev d' = used @ rev dropped"
    by simp
qed

text \<open>The number \<open>k\<close> of elements dropped fixes the shape of everything the loop returns.\<close>

lemma relax_counts:
  "relax e tk kw rr mode om toks h used dropped its = (ps, u', d', its', h') \<Longrightarrow>
   \<exists>k\<le>length used. u' = take (length used - k) used \<and> length its' = length its + k + 1
      \<and> length d' = length dropped + k"
proof -
  have "case relax e tk kw rr mode om toks h used dropped its of
          (ps, u', d', its', h') \<Rightarrow>
            \<exists>k\<le>length used. u' = take (length used - k) used
               \<and> length its' = length its + k + 1 \<and> length d' = length dropped + k"
  proof (rule relax_rule)
    fix h used dropped its a and res :: "candidate list \<times> triple list \<times> triple list \<times> iteration list \<times> event list"
    assume ne: "used \<noteq> []"
      and ih: "case res of (ps, u', d', its', h') \<Rightarrow>
             \<exists>k\<le>length (butlast used). u' = take (length (butlast used) - k) (butlast used)
               \<and> length its' = length (its @ [attempt_record its used dropped (fst a)]) + k + 1
               \<and> length d' = length (dropped @ [last used]) + k"
    obtain ps u' d' its' h' where res: "res = (ps, u', d', its', h')"
      by (cases res)
    from ih res obtain k where k: "k \<le> length (butlast used)"
        "u' = take (length (butlast used) - k) (butlast used)"
        "length its' = length its + 1 + k + 1" "length d' = length dropped + 1 + k"
      by auto
    have "take (length (butlast used) - k) (butlast used) = take (length used - Suc k) used"
      using ne by (simp add: take_butlast)
    moreover have "Suc k \<le> length used"
      using k(1) ne by (cases used rule: rev_cases) auto
    ultimately have "Suc k \<le> length used \<and> u' = take (length used - Suc k) used
        \<and> length its' = length its + Suc k + 1 \<and> length d' = length dropped + Suc k"
      using k by auto
    then show "case res of (ps, u', d', its', h') \<Rightarrow>
            \<exists>k\<le>length used. u' = take (length used - k) used
               \<and> length its' = length its + k + 1 \<and> length d' = length dropped + k"
      unfolding res by blast
  next
    fix h used dropped its a
    show "case (fst a, used, dropped, its @ [attempt_record its used dropped (fst a)], snd a) of
          (ps, u', d', its', h') \<Rightarrow>
            \<exists>k\<le>length used. u' = take (length used - k) used
               \<and> length its' = length its + k + 1 \<and> length d' = length dropped + k"
      by (auto intro: exI [of _ 0])
  qed
  then show "relax e tk kw rr mode om toks h used dropped its = (ps, u', d', its', h') \<Longrightarrow>
   \<exists>k\<le>length used. u' = take (length used - k) used \<and> length its' = length its + k + 1
      \<and> length d' = length dropped + k"
    by simp
qed

text \<open>The trail: the records before the loop stay, and record \<open>j\<close> of the loop is the attempt
  on the first \<open>length used - j\<close> parameters.\<close>

lemma relax_trail:
  "relax e tk kw rr mode om toks h used dropped its = (ps, u', d', its', h') \<Longrightarrow>
   take (length its) its' = its \<and>
   (\<forall>j. length its + j < length its' \<longrightarrow>
      used_values (its' ! (length its + j)) = take (length used - j) used
      \<and> attempt (its' ! (length its + j)) = length its + j + 1
      \<and> used_value_count (its' ! (length its + j)) = length used - j
      \<and> dropped_value_count (its' ! (length its + j)) = length dropped + j)"
proof -
  let ?Q = "\<lambda>used dropped its its'. take (length its) its' = its \<and>
   (\<forall>j. length its + j < length its' \<longrightarrow>
      used_values (its' ! (length its + j)) = take (length used - j) used
      \<and> attempt (its' ! (length its + j)) = length its + j + 1
      \<and> used_value_count (its' ! (length its + j)) = length used - j
      \<and> dropped_value_count (its' ! (length its + j)) = length dropped + j)"
  have "case relax e tk kw rr mode om toks h used dropped its of
          (ps, u', d', its', h') \<Rightarrow> ?Q used dropped its its'"
  proof (rule relax_rule)
    fix h used dropped its a
    show "case (fst a, used, dropped, its @ [attempt_record its used dropped (fst a)], snd a) of
          (ps, u', d', its', h') \<Rightarrow> ?Q used dropped its its'"
      by (auto simp: attempt_record_def)
  next
    fix h used dropped its a and res :: "candidate list \<times> triple list \<times> triple list \<times> iteration list \<times> event list"
    assume ne: "used \<noteq> []"
      and ih: "case res of (ps, u', d', its', h') \<Rightarrow>
             ?Q (butlast used) (dropped @ [last used])
                (its @ [attempt_record its used dropped (fst a)]) its'"
    obtain ps u' d' its' h' where res: "res = (ps, u', d', its', h')"
      by (cases res)
    let ?r = "attempt_record its used dropped (fst a)"
    from ih res have pre: "take (Suc (length its)) its' = its @ [?r]"
      and rest: "\<And>j. Suc (length its) + j < length its' \<Longrightarrow>
        used_values (its' ! (Suc (length its) + j)) = take (length (butlast used) - j) (butlast used)
        \<and> attempt (its' ! (Suc (length its) + j)) = Suc (length its) + j + 1
        \<and> used_value_count (its' ! (Suc (length its) + j)) = length (butlast used) - j
        \<and> dropped_value_count (its' ! (Suc (length its) + j)) = Suc (length dropped) + j"
      by auto
    have len: "length its < length its'"
    proof (rule ccontr)
      assume "\<not> length its < length its'"
      then have "length (take (Suc (length its)) its') \<le> length its" by simp
      with pre show False by simp
    qed
    have p1: "take (length its) its' = its"
    proof -
      have "take (length its) its' = take (length its) (take (Suc (length its)) its')"
        by (simp add: min_def)
      then show ?thesis using pre by simp
    qed
    have at0: "its' ! length its = ?r"
    proof -
      have "its' ! length its = take (Suc (length its)) its' ! length its"
        by simp
      then show ?thesis using pre by simp
    qed
    have "\<And>j. length its + j < length its' \<Longrightarrow>
      used_values (its' ! (length its + j)) = take (length used - j) used
      \<and> attempt (its' ! (length its + j)) = length its + j + 1
      \<and> used_value_count (its' ! (length its + j)) = length used - j
      \<and> dropped_value_count (its' ! (length its + j)) = length dropped + j"
    proof -
      fix j
      assume j: "length its + j < length its'"
      show "used_values (its' ! (length its + j)) = take (length used - j) used
      \<and> attempt (its' ! (length its + j)) = length its + j + 1
      \<and> used_value_count (its' ! (length its + j)) = length used - j
      \<and> dropped_value_count (its' ! (length its + j)) = length dropped + j"
      proof (cases j)
        case 0
        then show ?thesis using at0 by (simp add: attempt_record_def)
      next
        case (Suc i)
        have "take (length (butlast used) - i) (butlast used) = take (length used - Suc i) used"
          using ne by (simp add: take_butlast)
        with rest [of i] j Suc show ?thesis by simp
      qed
    qed
    with p1 show "case res of (ps, u', d', its', h') \<Rightarrow> ?Q used dropped its its'"
      unfolding res by simp
  qed
  then show "relax e tk kw rr mode om toks h used dropped its = (ps, u', d', its', h') \<Longrightarrow>
    ?Q used dropped its its'"
    by simp
qed

lemma base_filter_no_mode:
  "mode \<noteq> Some ''exclude_base'' \<Longrightarrow> mode \<noteq> Some ''only_base'' \<Longrightarrow> base_filter mode toks ps = ps"
  by (simp add: base_filter_def)

text \<open>Under a mode that is neither \<open>exclude_base\<close> nor \<open>only_base\<close>, the base tokens have no
  effect on what the loop returns.\<close>

lemma relax_no_mode:
  assumes "mode \<noteq> Some ''exclude_base''" and "mode \<noteq> Some ''only_base''"
  shows "relax e tk kw rr mode om toks h used dropped its =
         relax e tk kw rr mode om toks' h used dropped its"
proof -
  have fa: "\<And>h used. filtered_attempt e h tk kw mode om toks' used =
                      filtered_attempt e h tk kw mode om toks used"
    using assms by (simp add: filtered_attempt_def base_filter_no_mode)
  show ?thesis
  proof (rule relax_rule [where P = "\<lambda>h used dropped its res.
           res = relax e tk kw rr mode om toks' h used dropped its"])
    fix h used dropped its a
    assume "a = filtered_attempt e h tk kw mode om toks used"
      and "fst a \<noteq> [] \<or> \<not> rr \<or> used = []"
    then show "(fst a, used, dropped, its @ [attempt_record its used dropped (fst a)], snd a) =
        relax e tk kw rr mode om toks' h used dropped its"
      by (subst relax.simps) (auto simp: Let_def fa)
  next
    fix h used dropped its a and res :: "candidate list \<times> triple list \<times> triple list \<times> iteration list \<times> event list"
    assume a: "a = filtered_attempt e h tk kw mode om toks used"
      and c: "fst a = []" "rr" "used \<noteq> []"
      and res: "res = relax e tk kw rr mode om toks' (snd a) (butlast used)
                   (dropped @ [last used]) (its @ [attempt_record its used dropped (fst a)])"
    have "relax e tk kw rr mode om toks' h used dropped its =
          relax e tk kw rr mode om toks' (snd a) (butlast used) (dropped @ [last used])
            (its @ [attempt_record its used dropped (fst a)])"
      using a c by (subst relax.simps) (simp add: Let_def fa)
    with res show "res = relax e tk kw rr mode om toks' h used dropped its"
      by simp
  qed
qed

subsection \<open>The search as a whole\<close>

lemma find_searched:
  assumes "strip (or_empty mpn0) \<noteq> []"
    and "fetch_attrs_quiet e h (strip (or_empty mpn0)) = (Returns b, h1)"
    and "values_from_ranked (ranked_of b) \<noteq> []"
    and "get_digikey_token e h1 = Some token" and "token \<noteq> []"
    and "relax e token (pick_base_keywords b) rr mode (norm_mpn (Some (strip (or_empty mpn0))))
           (base_tokens_of (strip (or_empty mpn0))) (h1 @ [Ev_token])
           (values_from_ranked (ranked_of b)) [] [] = (ps, used, dropped, its, h3)"
  shows "find_replacements_for_mpn e h mpn0 rr mode =
     (Returns (Ok \<lparr>iterations = its, used_parameters = used, dropped_parameters = dropped,
                   products = fst (enrich_all e h3 (attach_reasons (match_reasons_of used) ps)),
                   base = b, note_text = None, base_mode = mode,
                   base_tokens = base_tokens_of (strip (or_empty mpn0))\<rparr>),
      snd (enrich_all e h3 (attach_reasons (match_reasons_of used) ps)))"
  using assms by (simp add: find_replacements_for_mpn_def Let_def truthy_def or_empty_def)

lemma find_Ok_cases:
  assumes "find_replacements_for_mpn e h mpn0 rr mode = (Returns (Ok r), h')"
  obtains (no_params) b where
      "strip (or_empty mpn0) \<noteq> []"
      "fetch_attrs_quiet e h (strip (or_empty mpn0)) = (Returns b, h')"
      "values_from_ranked (ranked_of b) = []"
      "r = \<lparr>iterations = [], used_parameters = [], dropped_parameters = [], products = [],
            base = b, note_text = Some ''No usable parameter values available for filtering.'',
            base_mode = mode, base_tokens = base_tokens_of (strip (or_empty mpn0))\<rparr>"
  | (searched) b h1 token ps used dropped its h3 where
      "strip (or_empty mpn0) \<noteq> []"
      "fetch_attrs_quiet e h (strip (or_empty mpn0)) = (Returns b, h1)"
      "values_from_ranked (ranked_of b) \<noteq> []"
      "get_digikey_token e h1 = Some token" "token \<noteq> []"
      "relax e token (pick_base_keywords b) rr mode (norm_mpn (Some (strip (or_empty mpn0))))
         (base_tokens_of (strip (or_empty mpn0))) (h1 @ [Ev_token])
         (values_from_ranked (ranked_of b)) [] [] = (ps, used, dropped, its, h3)"
      "r = \<lparr>iterations = its, used_parameters = used, dropped_parameters = dropped,
            products = fst (enrich_all e h3 (attach_reasons (match_reasons_of used) ps)),
            base = b, note_text = None, base_mode = mode,
            base_tokens = base_tokens_of (strip (or_empty mpn0))\<rparr>"
      "h' = snd (enrich_all e h3 (attach_reasons (match_reasons_of used) ps))"
proof -
  let ?m = "strip (or_empty mpn0)"
  from assms have m: "?m \<noteq> []"
    by (auto simp: find_replacements_for_mpn_def Let_def split: if_splits)
  obtain fo h1 where f: "fetch_attrs_quiet e h ?m = (fo, h1)"
    by (cases "fetch_attrs_quiet e h ?m")
  with assms m obtain b where b: "fo = Returns b"
    by (cases fo) (auto simp: find_replacements_for_mpn_def Let_def)
  show thesis
  proof (cases "values_from_ranked (ranked_of b) = []")
    case True
    with assms m f b have "h' = h1" and
      "r = \<lparr>iterations = [], used_parameters = [], dropped_parameters = [], products = [],
            base = b, note_text = Some ''No usable parameter values available for filtering.'',
            base_mode = mode, base_tokens = base_tokens_of ?m\<rparr>"
      by (auto simp: find_replacements_for_mpn_def Let_def)
    with m f b True show thesis
      by (intro no_params [of b]) auto
  next
    case False
    with assms m f b obtain token where t: "get_digikey_token e h1 = Some token" "token \<noteq> []"
      by (cases "get_digikey_token e h1")
        (auto simp: find_replacements_for_mpn_def Let_def truthy_def split: if_splits)
    obtain ps used dropped its h3 where
      rl: "relax e token (pick_base_keywords b) rr mode (norm_mpn (Some ?m))
         (base_tokens_of ?m) (h1 @ [Ev_token])
         (values_from_ranked (ranked_of b)) [] [] = (ps, used, dropped, its, h3)"
      by (cases "relax e token (pick_base_keywords b) rr mode (norm_mpn (Some ?m))
         (base_tokens_of ?m) (h1 @ [Ev_token]) (values_from_ranked (ranked_of b)) [] []")
    from find_searched [OF m f [unfolded b] False t rl] assms
    have "r = \<lparr>iterations = its, used_parameters = used, dropped_parameters = dropped,
            products = fst (enrich_all e h3 (attach_reasons (match_reasons_of used) ps)),
            base = b, note_text = None, base_mode = mode,
            base_tokens = base_tokens_of ?m\<rparr>"
      and "h' = snd (enrich_all e h3 (attach_reasons (match_reasons_of used) ps))"
      by simp_all
    with m f b False t rl show thesis
      by (intro searched [of b h1 token ps used dropped its h3]) auto
  qed
qed







lemma last_dropWhile: "dropWhile P xs \<noteq> [] \<Longrightarrow> last (dropWhile P xs) = last xs"
  by (induction xs) (auto split: if_splits)

lemma strip_strip: "strip (strip s) = strip s"
proof -
  define u where "u = dropWhile is_space s"
  define v where "v = dropWhile is_space (rev u)"
  have t: "strip s = rev v"
    by (simp add: strip_def u_def v_def)
  show ?thesis
  proof (cases "v = []")
    case True
    with t have z: "strip s = []" by simp
    have "strip [] = []" by (simp add: strip_def)
    then show ?thesis unfolding z .
  next
    case False
    then have hv: "\<not> is_space (hd v)"
      unfolding v_def by (rule hd_dropWhile)
    from False have "rev u \<noteq> []"
      unfolding v_def by auto
    then have un: "u \<noteq> []" by simp
    then have hu: "\<not> is_space (hd u)"
      unfolding u_def by (rule hd_dropWhile)
    have "last v = last (rev u)"
      using False unfolding v_def by (rule last_dropWhile)
    then have "hd (rev v) = hd u"
      using False un by (simp add: hd_rev last_rev)
    with hu have "\<not> is_space (hd (rev v))" by simp
    then have a: "dropWhile is_space (rev v) = rev v"
      by (simp add: dropWhile_eq_self_iff)
    have b: "dropWhile is_space v = v"
      using hv by (simp add: dropWhile_eq_self_iff)
    show ?thesis
      unfolding t by (simp add: strip_def a b)
  qed
qed

text \<open>
  A row whose name and value are both placeholders (or missing) gives no usable value, so
  a part with only such rows, or with no rows at all, has no usable parameter values.
\<close>

lemma placeholder_row_unusable:
  assumes "is_placeholder (rr_name p)" and "is_placeholder (rr_value p)"
  shows "value_of_row p = None"
proof -
  let ?name = "strip (or_empty (rr_name p))"
  let ?val = "strip (or_empty (rr_value p))"
  have e: "lower (strip []) \<in> set PLACEHOLDER"
    by (simp add: strip_def lower_def PLACEHOLDER_def)
  have n: "is_placeholder (Some ?name)"
    using assms(1) e by (cases "rr_name p") (simp_all add: is_placeholder_def or_empty_def strip_strip)
  have v: "is_placeholder (Some ?val)"
    using assms(2) e by (cases "rr_value p") (simp_all add: is_placeholder_def or_empty_def strip_strip)
  from n v show ?thesis
    by (simp add: value_of_row_def Let_def)
qed

lemma placeholder_rows_unusable:
  "\<forall>p\<in>set rows. is_placeholder (rr_name p) \<and> is_placeholder (rr_value p) \<Longrightarrow>
   values_from_ranked rows = []"
  by (induction rows) (simp_all add: placeholder_row_unusable)


lemma length_products:
  "length (fst (enrich_all e h (attach_reasons rs ps))) = length ps"
proof -
  have "length (map c_mpn (fst (enrich_all e h (attach_reasons rs ps)))) = length (map c_mpn ps)"
    by (simp only: map_c_mpn_enrich_all map_c_mpn_attach_reasons)
  then show ?thesis by simp
qed

text \<open>
  Claim C2 (termination). When the part has \<open>N \<ge> 1\<close> usable parameters and a token is
  available, the search returns a result whose trail has at least one and at most \<open>N + 1\<close>
  attempts, in state FOUND (products, or results not required) or EXHAUSTED (nothing left
  in \<open>used\<close>).
\<close>

theorem relaxation_terminates:
  assumes "strip (or_empty mpn) \<noteq> []"
    and "fetch_attrs_quiet e h (strip (or_empty mpn)) = (Returns b, h1)"
    and "values_from_ranked (ranked_of b) \<noteq> []"
    and "truthy (get_digikey_token e h1)"
  shows "\<exists>r h'. find_replacements_for_mpn e h mpn rr mode = (Returns (Ok r), h')
     \<and> 1 \<le> length (iterations r)
     \<and> length (iterations r) \<le> length (values_from_ranked (ranked_of b)) + 1
     \<and> (products r \<noteq> [] \<or> \<not> rr \<or> used_parameters r = [])"
proof -
  let ?m = "strip (or_empty mpn)"
  from assms(4) obtain token where t: "get_digikey_token e h1 = Some token" "token \<noteq> []"
    by (auto simp: truthy_def split: option.splits)
  obtain ps used dropped its h3 where
    rl: "relax e token (pick_base_keywords b) rr mode (norm_mpn (Some ?m))
       (base_tokens_of ?m) (h1 @ [Ev_token])
       (values_from_ranked (ranked_of b)) [] [] = (ps, used, dropped, its, h3)"
    by (cases "relax e token (pick_base_keywords b) rr mode (norm_mpn (Some ?m))
       (base_tokens_of ?m) (h1 @ [Ev_token]) (values_from_ranked (ranked_of b)) [] []")
  note fs = find_searched [OF assms(1-3) t rl]
  from relax_counts [OF rl] have len: "1 \<le> length its"
      "length its \<le> length (values_from_ranked (ranked_of b)) + 1"
    by auto
  from relax_terminal [OF rl] have "ps \<noteq> [] \<or> \<not> rr \<or> used = []" .
  moreover have "ps \<noteq> [] \<longleftrightarrow> fst (enrich_all e h3 (attach_reasons (match_reasons_of used) ps)) \<noteq> []"
    using length_products [of e h3 "match_reasons_of used" ps] by (metis length_0_conv)
  ultimately show ?thesis
    using fs len by auto
qed




text \<open>The scenario of the specification, with two usable parameters.\<close>

theorem relaxation_terminates_witness:
  "strip (or_empty (Some ''4414F'')) \<noteq> [] \<and>
   fetch_attrs_quiet fan_env [] (strip (or_empty (Some ''4414F''))) =
     (Returns fan_base, [Ev_fetch ''4414F'']) \<and>
   values_from_ranked (ranked_of fan_base) \<noteq> [] \<and>
   truthy (get_digikey_token fan_env [Ev_fetch ''4414F'']) \<and>
   (\<exists>r h'. find_replacements_for_mpn fan_env [] (Some ''4414F'') True None = (Returns (Ok r), h')
      \<and> 1 \<le> length (iterations r)
      \<and> length (iterations r) \<le> length (values_from_ranked (ranked_of fan_base)) + 1
      \<and> (products r \<noteq> [] \<or> \<not> True \<or> used_parameters r = []))"
proof -
  have s: "strip (or_empty (Some ''4414F'')) = ''4414F''"
    by code_simp
  have a: "strip (or_empty (Some ''4414F'')) \<noteq> []"
    unfolding s by simp
  have b: "fetch_attrs_quiet fan_env [] (strip (or_empty (Some ''4414F''))) =
     (Returns fan_base, [Ev_fetch ''4414F''])"
    unfolding s by (simp add: fetch_attrs_quiet_def fan_env_def or_empty_dict_def)
  have c: "values_from_ranked (ranked_of fan_base) \<noteq> []"
    by code_simp
  have d: "truthy (get_digikey_token fan_env [Ev_fetch ''4414F''])"
    by (simp add: fan_env_def truthy_def)
  from relaxation_terminates [OF a b c d, of True None] a b c d show ?thesis
    by blast
qed

subsection \<open>Base tokens and the family filter\<close>

lemma startswith_iff: "startswith s t \<longleftrightarrow> (\<exists>suf. s = t @ suf)"
  by (induction s t rule: startswith.induct) auto

lemma py_in_iff: "py_in t s \<longleftrightarrow> (\<exists>pre suf. s = pre @ t @ suf)"
proof (induction s)
  case Nil
  then show ?case by simp
next
  case (Cons c s)
  show ?case
  proof
    assume "py_in t (c # s)"
    then consider "startswith (c # s) t" | "py_in t s" by auto
    then show "\<exists>pre suf. c # s = pre @ t @ suf"
    proof cases
      case 1
      then obtain suf where "c # s = t @ suf" by (auto simp: startswith_iff)
      then have "c # s = [] @ t @ suf" by simp
      then show ?thesis by blast
    next
      case 2
      with Cons obtain pre suf where "s = pre @ t @ suf" by blast
      then have "c # s = (c # pre) @ t @ suf" by simp
      then show ?thesis by blast
    qed
  next
    assume "\<exists>pre suf. c # s = pre @ t @ suf"
    then obtain pre suf where eq: "c # s = pre @ t @ suf" by blast
    show "py_in t (c # s)"
    proof (cases pre)
      case Nil
      with eq have "startswith (c # s) t" by (auto simp: startswith_iff)
      then show ?thesis by simp
    next
      case (Cons d pre')
      with eq have "s = pre' @ t @ suf" by simp
      with Cons.IH have "py_in t s" by blast
      then show ?thesis by simp
    qed
  qed
qed







subsection \<open>Match reasons and the trail\<close>

lemma attach_reasons_nth:
  assumes "i < length ps"
  shows "attach_reasons rs ps ! i =
         (if i < 10 then setdefault_match_reasons rs (ps ! i) else ps ! i)"
proof (cases "i < 10")
  case True
  with assms have "i < length (map (setdefault_match_reasons rs) (take 10 ps))"
    by simp
  then have "attach_reasons rs ps ! i = map (setdefault_match_reasons rs) (take 10 ps) ! i"
    unfolding attach_reasons_def by (rule nth_append_left)
  with True assms show ?thesis by simp
next
  case False
  with assms have l: "length (map (setdefault_match_reasons rs) (take 10 ps)) = 10"
    by simp
  from False assms have "attach_reasons rs ps ! i = drop 10 ps ! (i - 10)"
    unfolding attach_reasons_def by (simp add: nth_append min_def)
  with False assms show ?thesis by simp
qed

lemma length_attach_reasons: "length (attach_reasons rs ps) = length ps"
  by (simp add: attach_reasons_def)

lemma products_nth:
  assumes "i < length ps"
  shows "c_mpn (fst (enrich_all e h (attach_reasons rs ps)) ! i) = c_mpn (ps ! i)"
    and "c_match_reasons (fst (enrich_all e h (attach_reasons rs ps)) ! i) =
         (if i < 10 then Some (case c_match_reasons (ps ! i) of None \<Rightarrow> rs | Some own \<Rightarrow> own)
          else c_match_reasons (ps ! i))"
proof -
  let ?out = "fst (enrich_all e h (attach_reasons rs ps))"
  have len: "i < length ?out"
    using assms by (simp add: length_products)
  have "c_mpn (?out ! i) = map c_mpn ?out ! i"
    using len by simp
  also have "\<dots> = map c_mpn ps ! i"
    by (simp only: map_c_mpn_enrich_all map_c_mpn_attach_reasons)
  finally show "c_mpn (?out ! i) = c_mpn (ps ! i)"
    using assms by simp
  have "c_match_reasons (?out ! i) = map c_match_reasons ?out ! i"
    using len by simp
  also have "\<dots> = map c_match_reasons (attach_reasons rs ps) ! i"
    by (simp only: map_c_match_reasons_enrich_all)
  also have "\<dots> = c_match_reasons (attach_reasons rs ps ! i)"
    using assms by (simp add: length_attach_reasons)
  also have "\<dots> = (if i < 10 then Some (case c_match_reasons (ps ! i) of None \<Rightarrow> rs | Some own \<Rightarrow> own)
          else c_match_reasons (ps ! i))"
    using assms
    by (simp add: attach_reasons_nth setdefault_match_reasons_def split: option.splits)
  finally show "c_match_reasons (?out ! i) =
         (if i < 10 then Some (case c_match_reasons (ps ! i) of None \<Rightarrow> rs | Some own \<Rightarrow> own)
          else c_match_reasons (ps ! i))" .
qed

text \<open>
  Claim C8, as amended (match reasons). Let \<open>ps\<close> be the candidates that survive the
  filters of the final attempt and \<open>used\<close> the final used list. The search returns as many
  products, with the same part numbers. Each of the first ten carries \<open>match_reasons\<close>: its
  own when it had the key, otherwise the texts \<open>name = value\<close> of the first six elements (at
  most) of \<open>used\<close>. From the eleventh on, \<open>match_reasons\<close> is as it was.
\<close>

theorem match_reasons_first_ten:
  assumes "strip (or_empty mpn) \<noteq> []"
    and "fetch_attrs_quiet e h (strip (or_empty mpn)) = (Returns b, h1)"
    and "values_from_ranked (ranked_of b) \<noteq> []"
    and "get_digikey_token e h1 = Some token" and "token \<noteq> []"
    and "relax e token (pick_base_keywords b) rr mode (norm_mpn (Some (strip (or_empty mpn))))
           (base_tokens_of (strip (or_empty mpn))) (h1 @ [Ev_token])
           (values_from_ranked (ranked_of b)) [] [] = (ps, used, dropped, its, h3)"
  shows "\<exists>r h'. find_replacements_for_mpn e h mpn rr mode = (Returns (Ok r), h')
     \<and> used_parameters r = used
     \<and> length (products r) = length ps
     \<and> (\<forall>i<length ps.
          c_mpn (products r ! i) = c_mpn (ps ! i) \<and>
          c_match_reasons (products r ! i) =
            (if i < 10
             then Some (case c_match_reasons (ps ! i) of
                          None \<Rightarrow> map (\<lambda>t. t_name t @ '' = '' @ t_value t) (take 6 used)
                        | Some own \<Rightarrow> own)
             else c_match_reasons (ps ! i)))"
proof -
  note fs = find_searched [OF assms]
  have "\<forall>i<length ps.
          c_mpn (fst (enrich_all e h3 (attach_reasons (match_reasons_of used) ps)) ! i) = c_mpn (ps ! i) \<and>
          c_match_reasons (fst (enrich_all e h3 (attach_reasons (match_reasons_of used) ps)) ! i) =
            (if i < 10
             then Some (case c_match_reasons (ps ! i) of
                          None \<Rightarrow> match_reasons_of used
                        | Some own \<Rightarrow> own)
             else c_match_reasons (ps ! i))"
    using products_nth [of _ ps e h3 "match_reasons_of used"] by blast
  then show ?thesis
    unfolding fs match_reasons_of_def by (simp add: length_products)
qed

text \<open>
  Claim C3 (monotonic relaxation). For every result, with \<open>triples\<close> the usable parameters
  of the part in rank order: \<open>used_parameters\<close> followed by the reverse of
  \<open>dropped_parameters\<close> is \<open>triples\<close>; the first attempt uses all of \<open>triples\<close>, the last one
  \<open>used_parameters\<close>; each attempt but the last has a non-empty used list, the next attempt
  uses that list without its last element, and that element is the entry of
  \<open>dropped_parameters\<close> at the attempt's position; there is one attempt more than there
  are dropped parameters.
\<close>

theorem monotonic_relaxation:
  assumes "find_replacements_for_mpn e h mpn rr mode = (Returns (Ok r), h')"
  shows "used_parameters r @ rev (dropped_parameters r) = values_from_ranked (ranked_of (base r))
    \<and> (iterations r \<noteq> [] \<longrightarrow>
         used_values (hd (iterations r)) = values_from_ranked (ranked_of (base r))
         \<and> used_values (last (iterations r)) = used_parameters r
         \<and> length (iterations r) = length (dropped_parameters r) + 1)
    \<and> (\<forall>k. Suc k < length (iterations r) \<longrightarrow>
         used_values (iterations r ! k) \<noteq> []
         \<and> used_values (iterations r ! Suc k) = butlast (used_values (iterations r ! k))
         \<and> dropped_parameters r ! k = last (used_values (iterations r ! k))
         \<and> attempt (iterations r ! k) = k + 1 \<and> attempt (iterations r ! Suc k) = k + 2)"
  using assms
proof (cases rule: find_Ok_cases)
  case (no_params b)
  then show ?thesis by simp
next
  case (searched b h1 token ps used dropped its h3)
  let ?ts = "values_from_ranked (ranked_of b)"
  let ?N = "length ?ts"
  note rl = searched(6)
  from relax_partition [OF rl] have part: "used @ rev dropped = ?ts"
    by simp
  from relax_counts [OF rl] obtain K where K: "K \<le> ?N" "used = take (?N - K) ?ts"
      "length its = K + 1" "length dropped = K"
    by auto
  from relax_trail [OF rl] have trail: "\<And>j. j < length its \<Longrightarrow>
      used_values (its ! j) = take (?N - j) ?ts \<and> attempt (its ! j) = j + 1"
    by simp
  have ne: "its \<noteq> []"
    using K(3) by auto
  have first: "used_values (hd its) = ?ts"
    using trail [of 0] ne by (simp add: hd_conv_nth)
  have lst: "used_values (last its) = used"
    using trail [of K] K ne by (simp add: last_conv_nth)
  have dr: "dropped = rev (drop (?N - K) ?ts)"
  proof -
    have "take (?N - K) ?ts @ rev dropped = take (?N - K) ?ts @ drop (?N - K) ?ts"
      using part K(2) by simp
    then have "rev dropped = drop (?N - K) ?ts"
      by (simp only: same_append_eq)
    then show ?thesis
      by (metis rev_rev_ident)
  qed
  have step: "used_values (its ! k) \<noteq> []
         \<and> used_values (its ! Suc k) = butlast (used_values (its ! k))
         \<and> dropped ! k = last (used_values (its ! k))
         \<and> attempt (its ! k) = k + 1 \<and> attempt (its ! Suc k) = k + 2"
    if "Suc k < length its" for k
  proof -
    from that K have k: "k < K" "k < ?N" by auto
    have a: "used_values (its ! k) = take (?N - k) ?ts" "attempt (its ! k) = k + 1"
      using trail [of k] that by auto
    have b: "used_values (its ! Suc k) = take (?N - Suc k) ?ts" "attempt (its ! Suc k) = k + 2"
      using trail [of "Suc k"] that by auto
    have n1: "take (?N - k) ?ts \<noteq> []"
      using k by (cases ?ts) auto
    have n2: "butlast (take (?N - k) ?ts) = take (?N - Suc k) ?ts"
      using k by (simp add: butlast_take)
    have "dropped ! k = rev (drop (?N - K) ?ts) ! k"
      using dr by simp
    also have "\<dots> = drop (?N - K) ?ts ! (K - Suc k)"
      using k K by (simp add: rev_nth)
    also have "\<dots> = ?ts ! (?N - Suc k)"
      using k K by simp
    also have "\<dots> = last (take (?N - k) ?ts)"
      using k n1 by (simp add: last_conv_nth)
    finally have n3: "dropped ! k = last (take (?N - k) ?ts)" .
    from a b n1 n2 n3 show ?thesis by simp
  qed
  from part first lst K step show ?thesis
    unfolding searched(7) by simp
qed

text \<open>The scenario of the specification: two attempts, \<open>Air Flow\<close> dropped after the first.\<close>

theorem monotonic_relaxation_witness:
  "\<exists>r h'. find_replacements_for_mpn fan_env [] (Some ''4414F'') True None = (Returns (Ok r), h')
     \<and> length (iterations r) = 2
     \<and> used_parameters r @ rev (dropped_parameters r) = values_from_ranked (ranked_of (base r))
     \<and> used_values (iterations r ! 1) = butlast (used_values (iterations r ! 0))
     \<and> dropped_parameters r ! 0 = last (used_values (iterations r ! 0))"
proof -
  have "case find_replacements_for_mpn fan_env [] (Some ''4414F'') True None of
          (Returns (Ok r), h') \<Rightarrow> length (iterations r) = 2 | _ \<Rightarrow> False"
    by code_simp
  then obtain r h' where eq: "find_replacements_for_mpn fan_env [] (Some ''4414F'') True None =
      (Returns (Ok r), h')" and len: "length (iterations r) = 2"
    by (auto split: prod.splits outcome.splits reply.splits)
  from monotonic_relaxation [OF eq] len
  have "used_parameters r @ rev (dropped_parameters r) = values_from_ranked (ranked_of (base r))"
    and "used_values (iterations r ! Suc 0) = butlast (used_values (iterations r ! 0))"
    and "dropped_parameters r ! 0 = last (used_values (iterations r ! 0))"
    by auto
  with eq len show ?thesis
    by auto
qed


text \<open>
  Claim C8 as stated fails: eleven candidates survive, none carries \<open>match_reasons\<close> of its
  own, two parameters are in use, and the eleventh candidate is returned without
  \<open>match_reasons\<close>.
\<close>

theorem match_reasons_eleventh_counterexample:
  "map c_match_reasons (normalize_products_dk eleven_env eleven_raw) = replicate 11 None \<and>
   map_option (map c_mpn \<circ> products)
     (returned (find_replacements_for_mpn eleven_env [] (Some ''4414F'') True None)) =
     Some (map Some [''A1'', ''A2'', ''A3'', ''A4'', ''A5'', ''A6'', ''A7'', ''A8'', ''A9'',
                     ''A10'', ''A11'']) \<and>
   map_option (map c_match_reasons \<circ> products)
     (returned (find_replacements_for_mpn eleven_env [] (Some ''4414F'') True None)) =
     Some (replicate 10 (Some [''Voltage - Rated = 24VDC'', ''Air Flow = 100 CFM'']) @ [None])"
  by code_simp

text \<open>The same eleven candidates: the first gets the reasons, the eleventh stays as it was.\<close>

theorem match_reasons_first_ten_witness:
  "strip (or_empty (Some ''4414F'')) \<noteq> [] \<and>
   fetch_attrs_quiet eleven_env [] (strip (or_empty (Some ''4414F''))) =
     (Returns fan_base, [Ev_fetch ''4414F'']) \<and>
   values_from_ranked (ranked_of fan_base) \<noteq> [] \<and>
   get_digikey_token eleven_env [Ev_fetch ''4414F''] = Some ''token'' \<and>
   (\<exists>ps used dropped its h3 r h'.
      relax eleven_env ''token'' (pick_base_keywords fan_base) True None
        (norm_mpn (Some (strip (or_empty (Some ''4414F'')))))
        (base_tokens_of (strip (or_empty (Some ''4414F'')))) ([Ev_fetch ''4414F''] @ [Ev_token])
        (values_from_ranked (ranked_of fan_base)) [] [] = (ps, used, dropped, its, h3)
      \<and> length ps = 11
      \<and> find_replacements_for_mpn eleven_env [] (Some ''4414F'') True None = (Returns (Ok r), h')
      \<and> used_parameters r = used
      \<and> length (products r) = 11
      \<and> c_match_reasons (products r ! 0) =
           Some (case c_match_reasons (ps ! 0) of
                   None \<Rightarrow> map (\<lambda>t. t_name t @ '' = '' @ t_value t) (take 6 used)
                 | Some own \<Rightarrow> own)
      \<and> c_match_reasons (products r ! 10) = c_match_reasons (ps ! 10))"
proof -
  have s: "strip (or_empty (Some ''4414F'')) = ''4414F''"
    by code_simp
  have a: "strip (or_empty (Some ''4414F'')) \<noteq> []"
    unfolding s by simp
  have b: "fetch_attrs_quiet eleven_env [] (strip (or_empty (Some ''4414F''))) =
     (Returns fan_base, [Ev_fetch ''4414F''])"
    unfolding s by (simp add: fetch_attrs_quiet_def eleven_env_def or_empty_dict_def)
  have c: "values_from_ranked (ranked_of fan_base) \<noteq> []"
    by code_simp
  have d: "get_digikey_token eleven_env [Ev_fetch ''4414F''] = Some ''token''"
    by (simp add: eleven_env_def)
  have d': "''token'' \<noteq> []"
    by simp
  obtain ps used dropped its h3 where rl:
    "relax eleven_env ''token'' (pick_base_keywords fan_base) True None
        (norm_mpn (Some (strip (or_empty (Some ''4414F'')))))
        (base_tokens_of (strip (or_empty (Some ''4414F'')))) ([Ev_fetch ''4414F''] @ [Ev_token])
        (values_from_ranked (ranked_of fan_base)) [] [] = (ps, used, dropped, its, h3)"
    by (cases "relax eleven_env ''token'' (pick_base_keywords fan_base) True None
        (norm_mpn (Some (strip (or_empty (Some ''4414F'')))))
        (base_tokens_of (strip (or_empty (Some ''4414F'')))) ([Ev_fetch ''4414F''] @ [Ev_token])
        (values_from_ranked (ranked_of fan_base)) [] []")
  have "length (fst (relax eleven_env ''token'' (pick_base_keywords fan_base) True None
        (norm_mpn (Some (strip (or_empty (Some ''4414F'')))))
        (base_tokens_of (strip (or_empty (Some ''4414F'')))) ([Ev_fetch ''4414F''] @ [Ev_token])
        (values_from_ranked (ranked_of fan_base)) [] [])) = 11"
    by code_simp
  with rl have len: "length ps = 11"
    by simp
  from match_reasons_first_ten [OF a b c d d' rl] obtain r h' where
    r: "find_replacements_for_mpn eleven_env [] (Some ''4414F'') True None = (Returns (Ok r), h')"
      "used_parameters r = used" "length (products r) = length ps"
    and each: "\<And>i. i < length ps \<Longrightarrow>
          c_match_reasons (products r ! i) =
            (if i < 10
             then Some (case c_match_reasons (ps ! i) of
                          None \<Rightarrow> map (\<lambda>t. t_name t @ '' = '' @ t_value t) (take 6 used)
                        | Some own \<Rightarrow> own)
             else c_match_reasons (ps ! i))"
    by blast
  from each [of 0] each [of 10] len
  have e0: "c_match_reasons (products r ! 0) =
           Some (case c_match_reasons (ps ! 0) of
                   None \<Rightarrow> map (\<lambda>t. t_name t @ '' = '' @ t_value t) (take 6 used)
                 | Some own \<Rightarrow> own)"
    and e10: "c_match_reasons (products r ! 10) = c_match_reasons (ps ! 10)"
    by simp_all
  have "\<exists>ps used dropped its h3 r h'.
      relax eleven_env ''token'' (pick_base_keywords fan_base) True None
        (norm_mpn (Some (strip (or_empty (Some ''4414F'')))))
        (base_tokens_of (strip (or_empty (Some ''4414F'')))) ([Ev_fetch ''4414F''] @ [Ev_token])
        (values_from_ranked (ranked_of fan_base)) [] [] = (ps, used, dropped, its, h3)
      \<and> length ps = 11
      \<and> find_replacements_for_mpn eleven_env [] (Some ''4414F'') True None = (Returns (Ok r), h')
      \<and> used_parameters r = used
      \<and> length (products r) = 11
      \<and> c_match_reasons (products r ! 0) =
           Some (case c_match_reasons (ps ! 0) of
                   None \<Rightarrow> map (\<lambda>t. t_name t @ '' = '' @ t_value t) (take 6 used)
                 | Some own \<Rightarrow> own)
      \<and> c_match_reasons (products r ! 10) = c_match_reasons (ps ! 10)"
    using rl len r e0 e10
    by (intro exI [of _ ps] exI [of _ used] exI [of _ dropped] exI [of _ its] exI [of _ h3]
        exI [of _ r] exI [of _ h'] conjI) simp_all
  with a b c d show ?thesis
    by (intro conjI)
qed

subsection \<open>The filter cascade\<close>

lemma try_payloads_none:
  "\<forall>j<length bs. reply_products (dk_request e (h @ map Ev_search (take j bs)) tk (bs ! j)) = []
   \<Longrightarrow> try_payloads e h tk bs = ([], h @ map Ev_search bs)"
proof (induction bs arbitrary: h)
  case Nil
  then show ?case by simp
next
  case (Cons b bs)
  from Cons.prems have b: "reply_products (dk_request e h tk b) = []"
    by fastforce
  have "\<forall>j<length bs. reply_products
          (dk_request e ((h @ [Ev_search b]) @ map Ev_search (take j bs)) tk (bs ! j)) = []"
  proof (intro allI impI)
    fix j assume "j < length bs"
    then have "Suc j < length (b # bs)" by simp
    with Cons.prems have "reply_products
        (dk_request e (h @ map Ev_search (take (Suc j) (b # bs))) tk ((b # bs) ! Suc j)) = []"
      by blast
    then show "reply_products
          (dk_request e ((h @ [Ev_search b]) @ map Ev_search (take j bs)) tk (bs ! j)) = []"
      by simp
  qed
  from Cons.IH [OF this] b show ?case
    by simp
qed

lemma try_payloads_first:
  "k < length bs \<Longrightarrow>
   reply_products (dk_request e (h @ map Ev_search (take k bs)) tk (bs ! k)) \<noteq> [] \<Longrightarrow>
   \<forall>j<k. reply_products (dk_request e (h @ map Ev_search (take j bs)) tk (bs ! j)) = [] \<Longrightarrow>
   try_payloads e h tk bs =
     (reply_products (dk_request e (h @ map Ev_search (take k bs)) tk (bs ! k)),
      h @ map Ev_search (take (Suc k) bs))"
proof (induction bs arbitrary: h k)
  case Nil
  then show ?case by simp
next
  case (Cons b bs)
  show ?case
  proof (cases k)
    case 0
    with Cons.prems show ?thesis by simp
  next
    case (Suc k')
    with Cons.prems have b: "reply_products (dk_request e h tk b) = []"
      by fastforce
    have k': "k' < length bs"
      using Cons.prems Suc by simp
    have y: "reply_products
        (dk_request e ((h @ [Ev_search b]) @ map Ev_search (take k' bs)) tk (bs ! k')) \<noteq> []"
      using Cons.prems(2) Suc by simp
    have n: "\<forall>j<k'. reply_products
        (dk_request e ((h @ [Ev_search b]) @ map Ev_search (take j bs)) tk (bs ! j)) = []"
    proof (intro allI impI)
      fix j assume "j < k'"
      then have "Suc j < k" using Suc by simp
      with Cons.prems(3) have "reply_products
          (dk_request e (h @ map Ev_search (take (Suc j) (b # bs))) tk ((b # bs) ! Suc j)) = []"
        by blast
      then show "reply_products
        (dk_request e ((h @ [Ev_search b]) @ map Ev_search (take j bs)) tk (bs ! j)) = []"
        by simp
    qed
    from Cons.IH [OF k' y n] b Suc show ?thesis
      by simp
  qed
qed

lemma tier_supplied:
  "p_id_valId ts \<noteq> [] \<longleftrightarrow> (\<exists>t\<in>set ts. truthy (t_id t) \<and> truthy (t_value_id t))"
  "p_id_valTxt ts \<noteq> [] \<longleftrightarrow> (\<exists>t\<in>set ts. truthy (t_id t) \<and> t_value t \<noteq> [])"
  "p_id_val ts \<noteq> [] \<longleftrightarrow> (\<exists>t\<in>set ts. truthy (t_id t) \<and> t_value t \<noteq> [])"
  "p_txt_val ts \<noteq> [] \<longleftrightarrow> (\<exists>t\<in>set ts. t_name t \<noteq> [] \<and> t_value t \<noteq> [])"
  by (auto simp: p_id_valId_def p_id_valTxt_def p_id_val_def p_txt_val_def filter_empty_conv)

lemma filters_differ:
  "p_id_valId ts = p_id_valTxt ts' \<Longrightarrow> p_id_valId ts = []"
  "p_id_valId ts = p_txt_val ts' \<Longrightarrow> p_id_valId ts = []"
  "p_id_valTxt ts = p_txt_val ts' \<Longrightarrow> p_id_valTxt ts = []"
  "p_id_valTxt ts = p_id_valId ts' \<Longrightarrow> p_id_valTxt ts = []"
  "p_txt_val ts = p_id_valId ts' \<Longrightarrow> p_txt_val ts = []"
  "p_txt_val ts = p_id_valTxt ts' \<Longrightarrow> p_txt_val ts = []"
proof -
  have ne: "map f xs = map g ys \<Longrightarrow> (\<And>x y. f x \<noteq> g y) \<Longrightarrow> map f xs = []"
    for f g :: "triple \<Rightarrow> param_filter" and xs ys
    by (cases xs; cases ys) auto
  show "p_id_valId ts = p_id_valTxt ts' \<Longrightarrow> p_id_valId ts = []"
    unfolding p_id_valId_def p_id_valTxt_def by (erule ne) simp
  show "p_id_valId ts = p_txt_val ts' \<Longrightarrow> p_id_valId ts = []"
    unfolding p_id_valId_def p_txt_val_def by (erule ne) simp
  show "p_id_valTxt ts = p_txt_val ts' \<Longrightarrow> p_id_valTxt ts = []"
    unfolding p_id_valTxt_def p_txt_val_def by (erule ne) simp
  show "p_id_valTxt ts = p_id_valId ts' \<Longrightarrow> p_id_valTxt ts = []"
    unfolding p_id_valId_def p_id_valTxt_def by (erule ne) simp
  show "p_txt_val ts = p_id_valId ts' \<Longrightarrow> p_txt_val ts = []"
    unfolding p_id_valId_def p_txt_val_def by (erule ne) simp
  show "p_txt_val ts = p_id_valTxt ts' \<Longrightarrow> p_txt_val ts = []"
    unfolding p_id_valTxt_def p_txt_val_def by (erule ne) simp
qed

lemma filter_candidates_order:
  "filter_candidates kw rc ts =
   filter (\<lambda>b. Filters b \<noteq> Some [] \<and> ParameterValueFilters b \<noteq> Some [])
     [tier1 kw rc ts, tier2 kw rc ts, tier3 kw rc ts, tier4 kw rc ts]"
  by (simp add: filter_candidates_def tier1_def tier2_def tier3_def tier4_def)

lemma tier_membership:
  "tier1 kw rc ts \<in> set (filter_candidates kw rc ts) \<longleftrightarrow> p_id_valId ts \<noteq> []"
  "tier2 kw rc ts \<in> set (filter_candidates kw rc ts) \<longleftrightarrow> p_id_valTxt ts \<noteq> []"
  "tier3 kw rc ts \<in> set (filter_candidates kw rc ts) \<longleftrightarrow> p_id_val ts \<noteq> []"
  "tier4 kw rc ts \<in> set (filter_candidates kw rc ts) \<longleftrightarrow> p_txt_val ts \<noteq> []"
  using filters_differ [of ts ts]
  by (auto simp: filter_candidates_def tier1_def tier2_def tier3_def tier4_def)

text \<open>
  Claim C7 (filter cascade). The payloads are the tiers 1 to 4, in this order, without
  those whose filter list is empty; a tier is among them exactly when some ranked value
  supplies its fields (identifier and value identifier; identifier and value text, for
  tiers 2 and 3; name and value text). With \<open>yield j\<close> the products tier \<open>j\<close> of the list
  gives when it is asked after the tiers before it, the search returns the products of
  the first tier that yields any, having asked the tiers up to that one and no other, or
  the empty list after asking all the tiers when none yields a product.
\<close>

theorem filter_cascade:
  "let cands = filter_candidates kw rc ts;
       yield = (\<lambda>j. reply_products
                  (dk_request e (h @ map Ev_search (take j cands)) tk (cands ! j)))
   in cands = filter (\<lambda>b. Filters b \<noteq> Some [] \<and> ParameterValueFilters b \<noteq> Some [])
                [tier1 kw rc ts, tier2 kw rc ts, tier3 kw rc ts, tier4 kw rc ts]
    \<and> (tier1 kw rc ts \<in> set cands \<longleftrightarrow> (\<exists>t\<in>set ts. truthy (t_id t) \<and> truthy (t_value_id t)))
    \<and> (tier2 kw rc ts \<in> set cands \<longleftrightarrow> (\<exists>t\<in>set ts. truthy (t_id t) \<and> t_value t \<noteq> []))
    \<and> (tier3 kw rc ts \<in> set cands \<longleftrightarrow> (\<exists>t\<in>set ts. truthy (t_id t) \<and> t_value t \<noteq> []))
    \<and> (tier4 kw rc ts \<in> set cands \<longleftrightarrow> (\<exists>t\<in>set ts. t_name t \<noteq> [] \<and> t_value t \<noteq> []))
    \<and> ((\<forall>j<length cands. yield j = []) \<longrightarrow>
         search_dk_with_filters e h tk kw ts rc = ([], h @ map Ev_search cands))
    \<and> (\<forall>k<length cands. yield k \<noteq> [] \<and> (\<forall>j<k. yield j = []) \<longrightarrow>
         search_dk_with_filters e h tk kw ts rc =
           (yield k, h @ map Ev_search (take (Suc k) cands)))"
proof -
  define cands where "cands = filter_candidates kw rc ts"
  define yield where "yield = (\<lambda>j. reply_products
                  (dk_request e (h @ map Ev_search (take j cands)) tk (cands ! j)))"
  have o: "cands = filter (\<lambda>b. Filters b \<noteq> Some [] \<and> ParameterValueFilters b \<noteq> Some [])
                [tier1 kw rc ts, tier2 kw rc ts, tier3 kw rc ts, tier4 kw rc ts]"
    unfolding cands_def by (rule filter_candidates_order)
  have m1: "tier1 kw rc ts \<in> set cands \<longleftrightarrow> (\<exists>t\<in>set ts. truthy (t_id t) \<and> truthy (t_value_id t))"
    unfolding cands_def by (simp only: tier_membership tier_supplied)
  have m2: "tier2 kw rc ts \<in> set cands \<longleftrightarrow> (\<exists>t\<in>set ts. truthy (t_id t) \<and> t_value t \<noteq> [])"
    unfolding cands_def by (simp only: tier_membership tier_supplied)
  have m3: "tier3 kw rc ts \<in> set cands \<longleftrightarrow> (\<exists>t\<in>set ts. truthy (t_id t) \<and> t_value t \<noteq> [])"
    unfolding cands_def by (simp only: tier_membership tier_supplied)
  have m4: "tier4 kw rc ts \<in> set cands \<longleftrightarrow> (\<exists>t\<in>set ts. t_name t \<noteq> [] \<and> t_value t \<noteq> [])"
    unfolding cands_def by (simp only: tier_membership tier_supplied)
  have none: "(\<forall>j<length cands. yield j = []) \<longrightarrow>
         search_dk_with_filters e h tk kw ts rc = ([], h @ map Ev_search cands)"
    unfolding yield_def search_dk_with_filters_def cands_def [symmetric]
    by (intro impI try_payloads_none)
  have first: "\<forall>k<length cands. yield k \<noteq> [] \<and> (\<forall>j<k. yield j = []) \<longrightarrow>
         search_dk_with_filters e h tk kw ts rc =
           (yield k, h @ map Ev_search (take (Suc k) cands))"
    unfolding yield_def search_dk_with_filters_def cands_def [symmetric]
    by (intro allI impI try_payloads_first) auto
  show ?thesis
    using o m1 m2 m3 m4 none first
    unfolding Let_def yield_def cands_def by (intro conjI)
qed

text \<open>
  One ranked value with all the fields: four tiers; the catalog gives nothing for the
  first and three records for the second, which are returned after two requests.
\<close>

theorem filter_cascade_witness:
  "filter_candidates ''DC Fans'' 50 volt_triples =
     [tier1 ''DC Fans'' 50 volt_triples, tier2 ''DC Fans'' 50 volt_triples,
      tier3 ''DC Fans'' 50 volt_triples, tier4 ''DC Fans'' 50 volt_triples] \<and>
   reply_products (dk_request fan_env [] ''token'' (tier1 ''DC Fans'' 50 volt_triples)) = [] \<and>
   reply_products (dk_request fan_env [Ev_search (tier1 ''DC Fans'' 50 volt_triples)] ''token''
                     (tier2 ''DC Fans'' 50 volt_triples)) =
     [fan_raw ''4414 f'', fan_raw ''4414FH'', fan_raw ''AFB-1224''] \<and>
   search_dk_with_filters fan_env [] ''token'' ''DC Fans'' volt_triples 50 =
     ([fan_raw ''4414 f'', fan_raw ''4414FH'', fan_raw ''AFB-1224''],
      [Ev_search (tier1 ''DC Fans'' 50 volt_triples),
       Ev_search (tier2 ''DC Fans'' 50 volt_triples)])"
proof -
  let ?c = "filter_candidates ''DC Fans'' 50 volt_triples"
  let ?t1 = "tier1 ''DC Fans'' 50 volt_triples"
  let ?t2 = "tier2 ''DC Fans'' 50 volt_triples"
  have c: "?c = [?t1, ?t2, tier3 ''DC Fans'' 50 volt_triples, tier4 ''DC Fans'' 50 volt_triples]"
    by (simp add: filter_candidates_def volt_triples_def p_id_valId_def p_id_valTxt_def
        p_id_val_def p_txt_val_def truthy_def)
  have y0: "reply_products (dk_request fan_env [] ''token'' ?t1) = []"
    by (simp add: fan_env_def fan_catalog_def tier1_def reply_products_def volt_triples_def
        p_id_valId_def truthy_def or_empty_def)
  have y1: "reply_products (dk_request fan_env [Ev_search ?t1] ''token'' ?t2) =
     [fan_raw ''4414 f'', fan_raw ''4414FH'', fan_raw ''AFB-1224'']"
    by (simp add: fan_env_def fan_catalog_def tier2_def reply_products_def volt_triples_def
        p_id_valTxt_def truthy_def or_empty_def extract_products_def jfield_or_def)
  have "1 < length ?c"
    unfolding c by simp
  moreover have "reply_products
      (dk_request fan_env ([] @ map Ev_search (take 1 ?c)) ''token'' (?c ! 1)) \<noteq> []"
    unfolding c using y1 by simp
  moreover have "\<forall>j<1. reply_products
      (dk_request fan_env ([] @ map Ev_search (take j ?c)) ''token'' (?c ! j)) = []"
    unfolding c using y0 by simp
  ultimately have "search_dk_with_filters fan_env [] ''token'' ''DC Fans'' volt_triples 50 =
      (reply_products (dk_request fan_env ([] @ map Ev_search (take 1 ?c)) ''token'' (?c ! 1)),
       [] @ map Ev_search (take (Suc 1) ?c))"
    using filter_cascade [of "''DC Fans''" 50 volt_triples fan_env "[]" "''token''"]
    unfolding Let_def by blast
  then have "search_dk_with_filters fan_env [] ''token'' ''DC Fans'' volt_triples 50 =
     ([fan_raw ''4414 f'', fan_raw ''4414FH'', fan_raw ''AFB-1224''],
      [Ev_search ?t1, Ev_search ?t2])"
    unfolding c using y1 by simp
  with c y0 y1 show ?thesis
    by (intro conjI)
qed

subsection \<open>The ranking\<close>



















end
